theory Spec2Isabelle
  imports Main "HOL-Library.AList" "HOL-Library.Word"
begin

section \<open>Parallel directory scan (lib/parallel\_scan.cpp)\<close>

text \<open>
  A shallow embedding of the traversal callbacks (\<open>DirCallback\<close>, \<open>BaseDirCallback\<close>),
  of the coordinator \<open>AsyncCallback\<close> and of the dispatcher \<open>fillBuffer\<close>.
  Everything a callback reaches through a C++ reference (the \<open>DirectoryValue\<close> it fills,
  the coordinator, the thread-level \<open>lastReportTime\<close>) is one explicit state that each
  function takes and returns. What a call reads from outside the program (the interruption
  flag, the steady clock, the observer's answer to an error) is an argument of the call.
\<close>

subsection \<open>Strings and helpers of the zen library\<close>

type_synonym Zstring = string

text \<open>
  Modelled from the spec: the path separator is a constant declared outside
  parallel\_scan.cpp; the value of the Linux build is taken.
\<close>

definition FILE_NAME_SEPARATOR :: char where
  "FILE_NAME_SEPARATOR = CHR ''/''"

text \<open>
  Modelled from the spec: the reserved database and lock suffixes are constants of
  db\_file.h and lock\_holder.h ("provided constants"); the comment in \<open>onFile\<close> names the
  database files sync.ffs\_db, sync.x64.ffs\_db.
\<close>

definition SYNC_DB_FILE_ENDING :: Zstring where
  "SYNC_DB_FILE_ENDING = ''.ffs_db''"

definition LOCK_FILE_ENDING :: Zstring where
  "LOCK_FILE_ENDING = ''.ffs_lock''"

text \<open>
  Modelled from the spec: \<open>endsWith\<close> ("name ends with a reserved suffix") is a helper of
  zen/string\_tools.h.
\<close>

definition endsWith :: "Zstring \<Rightarrow> Zstring \<Rightarrow> bool" where
  "endsWith str suf =
     (length suf \<le> length str \<and> drop (length str - length suf) str = suf)"

datatype FailureReturnVal = IF_MISSING_RETURN_ALL | IF_MISSING_RETURN_NONE

text \<open>
  Modelled from the spec: \<open>beforeLast\<close> is a helper of zen/string\_tools.h, "the segment
  before the final separator"; when the separator does not occur it returns the whole
  string or the empty string ("none"), as the third argument says.
\<close>

definition beforeLast :: "Zstring \<Rightarrow> char \<Rightarrow> FailureReturnVal \<Rightarrow> Zstring" where
  "beforeLast str ch onMissing =
     (if ch \<in> set str then rev (tl (dropWhile (\<lambda>c. c \<noteq> ch) (rev str)))
      else (case onMissing of IF_MISSING_RETURN_ALL \<Rightarrow> str | IF_MISSING_RETURN_NONE \<Rightarrow> []))"

text \<open>
  The count of a \<open>steady_clock\<close> time point or duration is a 64-bit signed number of
  nanoseconds, that of \<open>std::chrono::milliseconds\<close> a 64-bit signed number of
  milliseconds. Counts are integers here; \<open>wrap64\<close> gives the value that the 64-bit
  signed result of an operation has.
\<close>

definition wrap64 :: "int \<Rightarrow> int" where
  "wrap64 x = (x + 2 ^ 63) mod 2 ^ 64 - 2 ^ 63"

text \<open>
  Modelled from the spec: \<open>numeric::dist\<close> of zen/basic\_math.h, the distance of two time
  points whichever is the later one: \<open>a > b ? a - b : b - a\<close>, a duration in nanoseconds.
\<close>

definition dist :: "int \<Rightarrow> int \<Rightarrow> int" where
  "dist a b = wrap64 (if a > b then a - b else b - a)"

subsection \<open>The snapshot model\<close>

text \<open>
  Modelled from the spec: \<open>FolderContainer\<close>, \<open>FileAttributes\<close>, \<open>LinkAttributes\<close> and
  \<open>DirectoryValue\<close> are declared outside parallel\_scan.cpp. A \<open>FolderContainer\<close> is "an
  ordered mapping of child name to file record, sub-folder node or symlink record" with
  unique child names; a node owns its children. \<open>addSubFile\<close>, \<open>addSubLink\<close> and
  \<open>addSubFolder\<close> store the record under the child name. \<open>addSubFolder\<close> keeps the
  children of a sub-folder that is already there and returns a reference to the
  sub-folder's container.
\<close>

type_synonym FileId = string

datatype Item =
    FileRecord int nat FileId bool
  | SymlinkRecord int
  | SubFolder bool "(Zstring \<times> Item) list"

type_synonym FolderContainer = "(Zstring \<times> Item) list"

definition addSubFile :: "Zstring \<Rightarrow> Item \<Rightarrow> FolderContainer \<Rightarrow> FolderContainer" where
  "addSubFile name attr c = AList.update name attr c"

definition addSubLink :: "Zstring \<Rightarrow> Item \<Rightarrow> FolderContainer \<Rightarrow> FolderContainer" where
  "addSubLink name attr c = AList.update name attr c"

definition addSubFolder :: "Zstring \<Rightarrow> bool \<Rightarrow> FolderContainer \<Rightarrow> FolderContainer" where
  "addSubFolder name isFollowedSymlink c =
     (case map_of c name of
        Some (SubFolder old sub) \<Rightarrow> AList.update name (SubFolder isFollowedSymlink sub) c
      | _ \<Rightarrow> AList.update name (SubFolder isFollowedSymlink []) c)"

text \<open>
  A C++ reference \<open>FolderContainer&\<close> into the tree is the list of folder names that leads
  from the root container to the node. \<open>containerAt\<close> reads through a reference,
  \<open>modifyAt\<close> writes through it (a reference whose node is gone writes nothing).
\<close>

type_synonym FolderRef = "Zstring list"

primrec containerAt :: "FolderRef \<Rightarrow> FolderContainer \<Rightarrow> FolderContainer option" where
  "containerAt [] c = Some c"
| "containerAt (n # ns) c =
     (case map_of c n of
        Some (SubFolder fl sub) \<Rightarrow> containerAt ns sub
      | _ \<Rightarrow> None)"

primrec modifyAt ::
  "FolderRef \<Rightarrow> (FolderContainer \<Rightarrow> FolderContainer) \<Rightarrow> FolderContainer \<Rightarrow> FolderContainer"
where
  "modifyAt [] f c = f c"
| "modifyAt (n # ns) f c =
     (case map_of c n of
        Some (SubFolder fl sub) \<Rightarrow> AList.update n (SubFolder fl (modifyAt ns f sub)) c
      | _ \<Rightarrow> c)"

record DirectoryValue =
  folderCont :: FolderContainer
  failedFolderReads :: "Zstring \<rightharpoonup> string"
  failedItemReads :: "Zstring \<rightharpoonup> string"

text \<open>The value that \<open>buf[key]\<close> default-constructs.\<close>

definition emptyDirectoryValue :: DirectoryValue where
  "emptyDirectoryValue =
     \<lparr>folderCont = [], failedFolderReads = Map.empty, failedItemReads = Map.empty\<rparr>"

subsection \<open>The coordinator: class AsyncCallback\<close>

datatype HandleError = ON_ERROR_RETRY | ON_ERROR_CONTINUE

text \<open>
  The fields of \<open>AsyncCallback\<close>; mutexes and condition variables have no state of their
  own here. \<open>activeThreadIdxs\<close> is the \<open>std::map\<close> as its sequence of entries in ascending
  key order. \<open>threadsToFinish\<close> is a \<open>size_t\<close>, \<open>itemsScanned\<close> a \<open>std::atomic<int>\<close>;
  both wrap around. \<open>cbInterval\<close> is the count of milliseconds.
\<close>

record AsyncCallback =
  errorRequest :: "(string \<times> nat) option"
  errorResponse :: "HandleError option"
  threadsToFinish :: "64 word"
  currentFile :: string
  activeThreadIdxs :: "(int \<times> nat) list"
  notifyingThreadIdx :: int
  cbInterval :: int
  itemsScanned :: "32 word"

definition newAsyncCallback :: "64 word \<Rightarrow> int \<Rightarrow> AsyncCallback" where
  "newAsyncCallback threadsToFinish0 cbInterval0 =
     \<lparr>errorRequest = None, errorResponse = None, threadsToFinish = threadsToFinish0,
      currentFile = [], activeThreadIdxs = [], notifyingThreadIdx = 0,
      cbInterval = cbInterval0, itemsScanned = 0\<rparr>"

text \<open>
  \<open>mayReportCurrentFile\<close> returns its result and the new value of the reference
  parameter \<open>lastReportTime\<close>; \<open>now\<close> is the reading of the steady clock. The
  comparison of the distance, in nanoseconds, with \<open>cbInterval_\<close>, in milliseconds, is
  made in nanoseconds: the interval's count is multiplied by 1000000 in 64 bits.
\<close>

definition mayReportCurrentFile :: "AsyncCallback \<Rightarrow> int \<Rightarrow> int \<Rightarrow> int \<Rightarrow> bool \<times> int" where
  "mayReportCurrentFile acb threadIdx now lastReportTime =
     (if threadIdx \<noteq> notifyingThreadIdx acb then (False, lastReportTime)
      else if dist now lastReportTime > wrap64 (cbInterval acb * 1000000) then (True, now)
      else (False, lastReportTime))"

definition reportCurrentFile :: "string \<Rightarrow> AsyncCallback \<Rightarrow> AsyncCallback" where
  "reportCurrentFile filePath acb = acb\<lparr>currentFile := filePath\<rparr>"

definition incItemsScanned :: "AsyncCallback \<Rightarrow> AsyncCallback" where
  "incItemsScanned acb = acb\<lparr>itemsScanned := itemsScanned acb + 1\<rparr>"

text \<open>
  \<open>std::map::emplace\<close> inserts at the key's place in the order unless the key is there;
  \<open>erase\<close> removes the key; \<open>begin()->first\<close> is the first key of the sequence.
\<close>

definition emplace :: "int \<Rightarrow> nat \<Rightarrow> (int \<times> nat) list \<Rightarrow> (int \<times> nat) list" where
  "emplace k v m = (if k \<in> fst ` set m then m else insort_key fst (k, v) m)"

definition erase :: "int \<Rightarrow> (int \<times> nat) list \<Rightarrow> (int \<times> nat) list" where
  "erase k m = filter (\<lambda>p. fst p \<noteq> k) m"

definition notifyWorkBegin :: "int \<Rightarrow> nat \<Rightarrow> AsyncCallback \<Rightarrow> AsyncCallback" where
  "notifyWorkBegin threadIdx parallelOps acb =
     (let m = emplace threadIdx parallelOps (activeThreadIdxs acb)
      in acb\<lparr>activeThreadIdxs := m, notifyingThreadIdx := fst (hd m)\<rparr>)"

definition notifyWorkEnd :: "int \<Rightarrow> AsyncCallback \<Rightarrow> AsyncCallback" where
  "notifyWorkEnd threadIdx acb =
     (let m = erase threadIdx (activeThreadIdxs acb)
      in acb\<lparr>activeThreadIdxs := m,
              notifyingThreadIdx := (if m = [] then 0 else fst (hd m)),
              threadsToFinish := threadsToFinish acb - 1\<rparr>)"

subsection \<open>What the traversal callbacks are given\<close>

datatype SymLinkHandling = EXCLUDE | DIRECT | FOLLOW

datatype HandleLink = LINK_FOLLOW | LINK_SKIP

datatype Failure = ThreadInterruption

datatype FileError = FileError string string

type_synonym AbstractPath = string

text \<open>
  The filter interface \<open>HardFilter\<close> is declared outside parallel\_scan.cpp and is taken as
  given: \<open>passDirFilter\<close> returns its result together with the value it leaves in the
  out-parameter \<open>childItemMightMatch\<close>, which every caller in this file sets to true
  before the call.
\<close>

record HardFilter =
  passFileFilter :: "Zstring \<Rightarrow> bool"
  passDirFilter :: "Zstring \<Rightarrow> bool \<times> bool"

text \<open>
  The abstract file system layer (\<open>AFS\<close>), the translation macros and the remaining zen
  helpers are external collaborators and are taken as given: \<open>getRootPath p\<close> is
  \<open>AFS::getPathComponents(p).rootPath\<close>, \<open>lessPath\<close> is \<open>operator<\<close> of \<open>AbstractPath\<close>,
  \<open>translate\<close> is the macro \<open>_\<close> and \<open>translatePlural\<close> the macro \<open>_P\<close>.
\<close>

record Collaborators =
  getDisplayPath :: "AbstractPath \<Rightarrow> string"
  appendRelPath :: "AbstractPath \<Rightarrow> Zstring \<Rightarrow> AbstractPath"
  getRootPath :: "AbstractPath \<Rightarrow> AbstractPath"
  lessPath :: "AbstractPath \<Rightarrow> AbstractPath \<Rightarrow> bool"
  translate :: "string \<Rightarrow> string"
  translatePlural :: "string \<Rightarrow> string \<Rightarrow> nat \<Rightarrow> string"
  replaceCpy :: "string \<Rightarrow> string \<Rightarrow> string \<Rightarrow> string"
  toString :: "FileError \<Rightarrow> string"

text \<open>
  The structs of the traversal interface, with the fields this file reads. A member name
  that several structs share (\<open>itemName\<close>, \<open>modTime\<close>, \<open>symlinkInfo\<close>, \<open>filter\<close>,
  \<open>handleSymlinks\<close>) carries the struct in its name, except in \<open>FileInfo\<close> and
  \<open>TraverserConfig\<close>; the member \<open>filter\<close> of \<open>TraverserConfig\<close> is \<open>filterRef\<close>.
\<close>

record SymlinkInfo =
  linkName :: Zstring
  linkModTime :: int

record FileInfo =
  itemName :: Zstring
  fileSize :: nat
  modTime :: int
  fileId :: FileId
  symlinkInfo :: "SymlinkInfo option"

record FolderInfo =
  folderName :: Zstring
  folderSymlinkInfo :: "SymlinkInfo option"

record DirectoryKey =
  folderPath :: AbstractPath
  keyFilter :: HardFilter
  keyHandleSymlinks :: SymLinkHandling

text \<open>
  \<open>TraverserConfig\<close> holds its constant members; the members that are references
  (\<open>failedDirReads\<close>, \<open>failedItemReads\<close>, \<open>acb\<close>, \<open>lastReportTime\<close>) are the state
  \<open>ScanState\<close> on which every callback works.
\<close>

record TraverserConfig =
  baseFolderPath :: AbstractPath
  filterRef :: HardFilter
  handleSymlinks :: SymLinkHandling
  threadIdx :: int

record ScanState =
  dirValue :: DirectoryValue
  acb :: AsyncCallback
  lastReportTime :: int

record DirCallback =
  cfg :: TraverserConfig
  parentRelPathPf :: Zstring
  outputRef :: FolderRef
  level :: int

text \<open>
  \<open>AsyncCallback::reportError\<close> in the context of a worker: the call blocks until the
  request slot is free, posts the request, blocks until the foreground has answered, and
  clears both slots. Either wait can end with \<open>ThreadInterruption\<close>. What the call meets
  is the argument \<open>reply\<close>.
\<close>

datatype ForegroundReply =
    InterruptedWaitingForSlot
  | InterruptedWaitingForResponse
  | Response HandleError

definition reportError ::
  "ForegroundReply \<Rightarrow> string \<Rightarrow> nat \<Rightarrow> AsyncCallback \<Rightarrow> (Failure + HandleError) \<times> AsyncCallback"
where
  "reportError reply msg retryNumber a =
     (case reply of
        InterruptedWaitingForSlot \<Rightarrow> (Inl ThreadInterruption, a)
      | InterruptedWaitingForResponse \<Rightarrow>
          (Inl ThreadInterruption, a\<lparr>errorRequest := Some (msg, retryNumber)\<rparr>)
      | Response rv \<Rightarrow> (Inr rv, a\<lparr>errorRequest := None, errorResponse := None\<rparr>))"

text \<open>
  The status update that opens \<open>onFile\<close>, \<open>onFolder\<close>, \<open>onSymlink\<close> and the constructor of
  \<open>BaseDirCallback\<close>: \<open>if (acb.mayReportCurrentFile(threadIdx, lastReportTime))
  acb.reportCurrentFile(text)\<close>.
\<close>

definition updateStatus :: "int \<Rightarrow> int \<Rightarrow> string \<Rightarrow> ScanState \<Rightarrow> ScanState" where
  "updateStatus idx now filePath st =
     (case mayReportCurrentFile (acb st) idx now (lastReportTime st) of
        (True, t) \<Rightarrow> st\<lparr>acb := reportCurrentFile filePath (acb st), lastReportTime := t\<rparr>
      | (False, t) \<Rightarrow> st\<lparr>lastReportTime := t\<rparr>)"

definition displayRelPath :: "Collaborators \<Rightarrow> TraverserConfig \<Rightarrow> Zstring \<Rightarrow> string" where
  "displayRelPath ext c relPath =
     getDisplayPath ext (appendRelPath ext (baseFolderPath c) relPath)"

definition modifyOutput ::
  "DirCallback \<Rightarrow> (FolderContainer \<Rightarrow> FolderContainer) \<Rightarrow> ScanState \<Rightarrow> ScanState"
where
  "modifyOutput cb f st =
     st\<lparr>dirValue := (dirValue st)
          \<lparr>folderCont := modifyAt (outputRef cb) f (folderCont (dirValue st))\<rparr>\<rparr>"

definition countItem :: "ScanState \<Rightarrow> ScanState" where
  "countItem st = st\<lparr>acb := incItemsScanned (acb st)\<rparr>"

subsection \<open>DirCallback and BaseDirCallback\<close>

definition BaseDirCallback ::
  "Collaborators \<Rightarrow> int \<Rightarrow> DirectoryKey \<Rightarrow> int \<Rightarrow> ScanState \<Rightarrow> DirCallback \<times> ScanState"
where
  "BaseDirCallback ext now baseFolderKey idx st =
     (\<lparr>cfg = \<lparr>baseFolderPath = folderPath baseFolderKey,
              filterRef = keyFilter baseFolderKey,
              handleSymlinks = keyHandleSymlinks baseFolderKey,
              threadIdx = idx\<rparr>,
       parentRelPathPf = [], outputRef = [], level = 0\<rparr>,
      updateStatus idx now (getDisplayPath ext (folderPath baseFolderKey)) st)"

definition onFile ::
  "Collaborators \<Rightarrow> bool \<Rightarrow> int \<Rightarrow> DirCallback \<Rightarrow> FileInfo \<Rightarrow> ScanState
     \<Rightarrow> (Failure + unit) \<times> ScanState"
where
  "onFile ext interrupted now cb fi st =
     (if interrupted then (Inl ThreadInterruption, st)
      else if endsWith (itemName fi) SYNC_DB_FILE_ENDING \<or> endsWith (itemName fi) LOCK_FILE_ENDING
        then (Inr (), st)
      else
        let fileRelPath = parentRelPathPf cb @ itemName fi;
            st1 = updateStatus (threadIdx (cfg cb)) now (displayRelPath ext (cfg cb) fileRelPath) st
        in if \<not> passFileFilter (filterRef (cfg cb)) fileRelPath then (Inr (), st1)
           else (Inr (),
                 countItem (modifyOutput cb
                   (addSubFile (itemName fi)
                      (FileRecord (modTime fi) (fileSize fi) (fileId fi) (symlinkInfo fi \<noteq> None)))
                   st1)))"

definition reportDirError ::
  "(string \<Rightarrow> nat \<Rightarrow> ForegroundReply) \<Rightarrow> DirCallback \<Rightarrow> string \<Rightarrow> nat \<Rightarrow> ScanState
     \<Rightarrow> (Failure + HandleError) \<times> ScanState"
where
  "reportDirError observer cb msg retryNumber st =
     (case reportError (observer msg retryNumber) msg retryNumber (acb st) of
        (Inl e, a) \<Rightarrow> (Inl e, st\<lparr>acb := a\<rparr>)
      | (Inr ON_ERROR_CONTINUE, a) \<Rightarrow>
          (Inr ON_ERROR_CONTINUE,
           st\<lparr>acb := a,
              dirValue := (dirValue st)
                \<lparr>failedFolderReads := (failedFolderReads (dirValue st))
                   (beforeLast (parentRelPathPf cb) FILE_NAME_SEPARATOR IF_MISSING_RETURN_NONE
                      \<mapsto> msg)\<rparr>\<rparr>)
      | (Inr ON_ERROR_RETRY, a) \<Rightarrow> (Inr ON_ERROR_RETRY, st\<lparr>acb := a\<rparr>))"

definition reportItemError ::
  "(string \<Rightarrow> nat \<Rightarrow> ForegroundReply) \<Rightarrow> DirCallback \<Rightarrow> string \<Rightarrow> nat \<Rightarrow> Zstring \<Rightarrow> ScanState
     \<Rightarrow> (Failure + HandleError) \<times> ScanState"
where
  "reportItemError observer cb msg retryNumber name st =
     (case reportError (observer msg retryNumber) msg retryNumber (acb st) of
        (Inl e, a) \<Rightarrow> (Inl e, st\<lparr>acb := a\<rparr>)
      | (Inr ON_ERROR_CONTINUE, a) \<Rightarrow>
          (Inr ON_ERROR_CONTINUE,
           st\<lparr>acb := a,
              dirValue := (dirValue st)
                \<lparr>failedItemReads := (failedItemReads (dirValue st))
                   (parentRelPathPf cb @ name \<mapsto> msg)\<rparr>\<rparr>)
      | (Inr ON_ERROR_RETRY, a) \<Rightarrow> (Inr ON_ERROR_RETRY, st\<lparr>acb := a\<rparr>))"

text \<open>
  Modelled from the spec: \<open>tryReportingItemError\<close> is a helper of the abstract file system
  layer. It executes the action; on an I/O failure it builds an error message, increments
  the retry counter and calls \<open>reportItemError\<close>; on CONTINUE it returns, on RETRY it
  runs the action again. \<open>onFolder\<close> tests its result as a boolean: true when the
  action succeeded, false when the error was ignored (CONTINUE). \<open>cmd\<close> is what the
  action does: \<open>None\<close> when it completes, \<open>Some e\<close> when it throws \<open>e\<close>. The loop
  runs as long as the answer is RETRY, so the result is an option: \<open>None\<close> when it never
  returns.
\<close>

partial_function (option) tryReportingItemErrorFrom ::
  "Collaborators \<Rightarrow> (string \<Rightarrow> nat \<Rightarrow> ForegroundReply) \<Rightarrow> FileError option \<Rightarrow> DirCallback
     \<Rightarrow> Zstring \<Rightarrow> nat \<Rightarrow> ScanState \<Rightarrow> ((Failure + bool) \<times> ScanState) option"
where
  "tryReportingItemErrorFrom ext observer cmd cb name retryNumber st =
     (case cmd of
        None \<Rightarrow> Some (Inr True, st)
      | Some e \<Rightarrow>
          (case reportItemError observer cb (toString ext e) retryNumber name st of
             (Inl x, st') \<Rightarrow> Some (Inl x, st')
           | (Inr ON_ERROR_RETRY, st') \<Rightarrow>
               tryReportingItemErrorFrom ext observer cmd cb name (retryNumber + 1) st'
           | (Inr ON_ERROR_CONTINUE, st') \<Rightarrow> Some (Inr False, st')))"

definition tryReportingItemError ::
  "Collaborators \<Rightarrow> (string \<Rightarrow> nat \<Rightarrow> ForegroundReply) \<Rightarrow> FileError option \<Rightarrow> DirCallback
     \<Rightarrow> Zstring \<Rightarrow> ScanState \<Rightarrow> ((Failure + bool) \<times> ScanState) option"
where
  "tryReportingItemError ext observer cmd cb name st =
     tryReportingItemErrorFrom ext observer cmd cb name 0 st"

text \<open>The error that \<open>onFolder\<close> throws inside the action it hands to the helper.\<close>

definition endlessRecursionError :: "Collaborators \<Rightarrow> TraverserConfig \<Rightarrow> Zstring \<Rightarrow> FileError" where
  "endlessRecursionError ext c folderRelPath =
     FileError
       (replaceCpy ext (translate ext ''Cannot read directory %x.'') ''%x''
          (displayRelPath ext c folderRelPath))
       ''Endless recursion.''"

text \<open>
  \<open>onFolder\<close> returns the child callback, or \<open>None\<close> for the null pointer ("do not
  traverse"). The outer option is \<open>None\<close> when the call never returns.
\<close>

definition onFolder ::
  "Collaborators \<Rightarrow> (string \<Rightarrow> nat \<Rightarrow> ForegroundReply) \<Rightarrow> bool \<Rightarrow> int \<Rightarrow> DirCallback \<Rightarrow> FolderInfo
     \<Rightarrow> ScanState \<Rightarrow> ((Failure + DirCallback option) \<times> ScanState) option"
where
  "onFolder ext observer interrupted now cb fi st =
     (if interrupted then Some (Inl ThreadInterruption, st)
      else
        let folderRelPath = parentRelPathPf cb @ folderName fi;
            st1 = updateStatus (threadIdx (cfg cb)) now
                    (displayRelPath ext (cfg cb) folderRelPath) st;
            (passFilter, childItemMightMatch) = passDirFilter (filterRef (cfg cb)) folderRelPath
        in if \<not> passFilter \<and> \<not> childItemMightMatch then Some (Inr None, st1)
           else
             let st2 = modifyOutput cb
                         (addSubFolder (folderName fi) (folderSymlinkInfo fi \<noteq> None)) st1;
                 st3 = (if passFilter then countItem st2 else st2);
                 child = \<lparr>cfg = cfg cb,
                          parentRelPathPf = folderRelPath @ [FILE_NAME_SEPARATOR],
                          outputRef = outputRef cb @ [folderName fi],
                          level = level cb + 1\<rparr>
             in if level cb > 100 then
                  (case tryReportingItemError ext observer
                          (Some (endlessRecursionError ext (cfg cb) folderRelPath))
                          cb (folderName fi) st3 of
                     None \<Rightarrow> None
                   | Some (Inl x, st4) \<Rightarrow> Some (Inl x, st4)
                   | Some (Inr ok, st4) \<Rightarrow>
                       if \<not> ok then Some (Inr None, st4) else Some (Inr (Some child), st4))
                else Some (Inr (Some child), st3))"

definition onSymlink ::
  "Collaborators \<Rightarrow> bool \<Rightarrow> int \<Rightarrow> DirCallback \<Rightarrow> SymlinkInfo \<Rightarrow> ScanState
     \<Rightarrow> (Failure + HandleLink) \<times> ScanState"
where
  "onSymlink ext interrupted now cb si st =
     (if interrupted then (Inl ThreadInterruption, st)
      else
        let linkRelPath = parentRelPathPf cb @ linkName si;
            st1 = updateStatus (threadIdx (cfg cb)) now
                    (displayRelPath ext (cfg cb) linkRelPath) st
        in case handleSymlinks (cfg cb) of
             EXCLUDE \<Rightarrow> (Inr LINK_SKIP, st1)
           | DIRECT \<Rightarrow>
               if passFileFilter (filterRef (cfg cb)) linkRelPath
               then (Inr LINK_SKIP,
                     countItem (modifyOutput cb
                       (addSubLink (linkName si) (SymlinkRecord (linkModTime si))) st1))
               else (Inr LINK_SKIP, st1)
           | FOLLOW \<Rightarrow>
               if \<not> passFileFilter (filterRef (cfg cb)) linkRelPath
                  \<and> \<not> fst (passDirFilter (filterRef (cfg cb)) linkRelPath)
                  \<and> \<not> snd (passDirFilter (filterRef (cfg cb)) linkRelPath)
               then (Inr LINK_SKIP, st1)
               else (Inr LINK_FOLLOW, st1))"

subsection \<open>The foreground loop: AsyncCallback::waitUntilDone\<close>

text \<open>
  The observer \<open>FillBufferCallback\<close> is an external, stateful object: each of its two
  functions is given the calls it has received so far. \<open>cbReportStatus\<close> is false when
  \<open>reportStatus\<close> throws, \<open>cbReportError\<close> is \<open>None\<close> when \<open>reportError\<close> throws.
\<close>

datatype ObserverCall = StatusCall string "32 word" | ErrorCall string nat

datatype ObserverFailure = ObserverFailure

record FillBufferCallback =
  cbReportStatus :: "ObserverCall list \<Rightarrow> string \<Rightarrow> 32 word \<Rightarrow> bool"
  cbReportError :: "ObserverCall list \<Rightarrow> string \<Rightarrow> nat \<Rightarrow> HandleError option"

definition getCurrentStatus :: "Collaborators \<Rightarrow> AsyncCallback \<Rightarrow> string" where
  "getCurrentStatus ext a =
     (let parallelOpsTotal = sum_list (map snd (activeThreadIdxs a)) mod 2 ^ 64;
          textScanning = translate ext ''Scanning:'' @ '' ''
      in textScanning
         @ (if parallelOpsTotal \<ge> 2
            then ''['' @ translatePlural ext ''1 thread'' ''%x threads'' parallelOpsTotal @ ''] ''
            else [])
         @ currentFile a)"

text \<open>
  The worker threads run beside the foreground. What they do to the shared state while
  the foreground waits is a schedule: the sequence of their steps, each one atomic under
  the lock it takes, and the expiries of the foreground's deadline. A worker only holds
  pointers to \<open>DirectoryValue\<close>s that are in \<open>buf\<close>; \<open>Scan key f\<close> is a write through
  such a pointer. \<open>PostError\<close> and \<open>TakeResponse\<close> are the two halves of the worker's
  \<open>reportError\<close>; a half whose wait condition does not hold leaves the state as it is.
  A step that a worker makes while the foreground runs between two waits is taken at the
  next wait.
\<close>

datatype WorkerAction =
    Timeout
  | PostError string nat
  | TakeResponse
  | WorkBegin int nat
  | WorkEnd int
  | ItemScanned
  | CurrentFile string
  | Scan DirectoryKey "DirectoryValue \<Rightarrow> DirectoryValue"

record Shared =
  sAcb :: AsyncCallback
  sBuf :: "DirectoryKey \<rightharpoonup> DirectoryValue"

definition onAcb :: "(AsyncCallback \<Rightarrow> AsyncCallback) \<Rightarrow> Shared \<Rightarrow> Shared" where
  "onAcb f s = s\<lparr>sAcb := f (sAcb s)\<rparr>"

fun applyAction :: "WorkerAction \<Rightarrow> Shared \<Rightarrow> Shared" where
  "applyAction Timeout s = s"
| "applyAction (PostError msg retryNumber) s =
     (if errorRequest (sAcb s) = None \<and> errorResponse (sAcb s) = None
      then onAcb (\<lambda>a. a\<lparr>errorRequest := Some (msg, retryNumber)\<rparr>) s else s)"
| "applyAction TakeResponse s =
     (if errorResponse (sAcb s) \<noteq> None
      then onAcb (\<lambda>a. a\<lparr>errorRequest := None, errorResponse := None\<rparr>) s else s)"
| "applyAction (WorkBegin idx parallelOps) s = onAcb (notifyWorkBegin idx parallelOps) s"
| "applyAction (WorkEnd idx) s = onAcb (notifyWorkEnd idx) s"
| "applyAction ItemScanned s = onAcb incItemsScanned s"
| "applyAction (CurrentFile filePath) s = onAcb (reportCurrentFile filePath) s"
| "applyAction (Scan key f) s = s\<lparr>sBuf := (sBuf s)(key := map_option f (sBuf s key))\<rparr>"

text \<open>The predicate of the foreground's \<open>wait_until\<close>.\<close>

definition wakeCondition :: "AsyncCallback \<Rightarrow> bool" where
  "wakeCondition a =
     ((errorRequest a \<noteq> None \<and> errorResponse a = None) \<or> threadsToFinish a = 0)"

text \<open>
  The two calls of the observer that \<open>waitUntilDone\<close> makes. \<open>answerPendingError\<close> is
  \<open>if (errorRequest_ && !errorResponse_) errorResponse_ = callback.reportError(...)\<close>: it
  returns the state (\<open>None\<close> when the observer throws) and the calls so far.
  \<open>reportStatusNow\<close> is \<open>callback.reportStatus(getCurrentStatus(), itemsScanned_)\<close>: it
  returns whether the observer returned, and the calls so far.
\<close>

definition answerPendingError ::
  "FillBufferCallback \<Rightarrow> Shared \<Rightarrow> ObserverCall list \<Rightarrow> Shared option \<times> ObserverCall list"
where
  "answerPendingError callback s calls =
     (case errorRequest (sAcb s) of
        None \<Rightarrow> (Some s, calls)
      | Some (msg, retryNumber) \<Rightarrow>
          if errorResponse (sAcb s) = None then
            (case cbReportError callback calls msg retryNumber of
               None \<Rightarrow> (None, calls @ [ErrorCall msg retryNumber])
             | Some rv \<Rightarrow>
                 (Some (onAcb (\<lambda>a. a\<lparr>errorResponse := Some rv\<rparr>) s),
                  calls @ [ErrorCall msg retryNumber]))
          else (Some s, calls))"

definition reportStatusNow ::
  "Collaborators \<Rightarrow> FillBufferCallback \<Rightarrow> Shared \<Rightarrow> ObserverCall list
     \<Rightarrow> bool \<times> ObserverCall list"
where
  "reportStatusNow ext callback s calls =
     (cbReportStatus callback calls (getCurrentStatus ext (sAcb s)) (itemsScanned (sAcb s)),
      calls @ [StatusCall (getCurrentStatus ext (sAcb s)) (itemsScanned (sAcb s))])"

fun isTimeout :: "WorkerAction \<Rightarrow> bool" where
  "isTimeout Timeout = True"
| "isTimeout act = False"

text \<open>
  \<open>waitUntilDone\<close> returns how it ended (normally, or with what the observer threw), the
  shared state and the calls the observer received. \<open>wait_until\<close> tests its predicate
  before it waits; while the predicate is false the next step of the schedule happens.
  On \<open>Timeout\<close> the inner loop is left and the status is reported outside the lock.
  The result is \<open>None\<close> when the schedule ends before the function returns.
\<close>

function waitUntilDone ::
  "Collaborators \<Rightarrow> FillBufferCallback \<Rightarrow> WorkerAction list \<Rightarrow> Shared \<Rightarrow> ObserverCall list
     \<Rightarrow> ((ObserverFailure + unit) \<times> Shared \<times> ObserverCall list) option"
where
  "waitUntilDone ext callback sched s calls =
     (if \<not> wakeCondition (sAcb s) then
        (case sched of
           [] \<Rightarrow> None
         | act # rest \<Rightarrow>
             if isTimeout act then
               (case reportStatusNow ext callback s calls of
                  (True, calls1) \<Rightarrow> waitUntilDone ext callback rest s calls1
                | (False, calls1) \<Rightarrow> Some (Inl ObserverFailure, s, calls1))
             else waitUntilDone ext callback rest (applyAction act s) calls)
      else
        (case answerPendingError callback s calls of
           (None, calls1) \<Rightarrow> Some (Inl ObserverFailure, s, calls1)
         | (Some s1, calls1) \<Rightarrow>
             if threadsToFinish (sAcb s1) = 0 then
               (case reportStatusNow ext callback s1 calls1 of
                  (True, calls2) \<Rightarrow> Some (Inr (), s1, calls2)
                | (False, calls2) \<Rightarrow> Some (Inl ObserverFailure, s1, calls2))
             else waitUntilDone ext callback sched s1 calls1))"
  by pat_completeness auto
termination
  apply (relation "measure (\<lambda>(ext, callback, sched, s, calls).
            2 * length sched + (if wakeCondition (sAcb s) then 1 else 0))")
     apply (auto simp: wakeCondition_def onAcb_def answerPendingError_def
              split: if_splits option.splits prod.splits)
  done

declare waitUntilDone.simps [simp del]

subsection \<open>The dispatcher: fillBuffer\<close>

text \<open>
  \<open>foldersToRead\<close> is the \<open>std::set\<close> as the sequence of its keys in iteration order,
  \<open>perDeviceFolders\<close> the \<open>std::map\<close> as the sequence of its entries in the order of
  \<open>lessPath\<close>. The keys reach each device's set in ascending order, so the insertion of a
  new key is at the end.
\<close>

definition insertKey :: "DirectoryKey \<Rightarrow> DirectoryKey list \<Rightarrow> DirectoryKey list" where
  "insertKey key ks = (if key \<in> set ks then ks else ks @ [key])"

fun addToDevice ::
  "(AbstractPath \<Rightarrow> AbstractPath \<Rightarrow> bool) \<Rightarrow> AbstractPath \<Rightarrow> DirectoryKey
     \<Rightarrow> (AbstractPath \<times> DirectoryKey list) list \<Rightarrow> (AbstractPath \<times> DirectoryKey list) list"
where
  "addToDevice lt rootPath key [] = [(rootPath, [key])]"
| "addToDevice lt rootPath key ((r, ks) # rest) =
     (if lt rootPath r then (rootPath, [key]) # (r, ks) # rest
      else if lt r rootPath then (r, ks) # addToDevice lt rootPath key rest
      else (r, insertKey key ks) # rest)"

definition groupByDevice ::
  "Collaborators \<Rightarrow> DirectoryKey list \<Rightarrow> (AbstractPath \<times> DirectoryKey list) list"
where
  "groupByDevice ext foldersToRead =
     foldl (\<lambda>m key. addToDevice (lessPath ext) (getRootPath ext (folderPath key)) key m)
       [] foldersToRead"

record Worker =
  workerRoot :: AbstractPath
  workerIdx :: int
  workerParallelOps :: nat
  workload :: "DirectoryKey list"

text \<open>What the dispatcher does to \<open>buf\<close> and to the worker list, in the order it does it.\<close>

datatype DispatchEvent = BufClear | BufInsert DirectoryKey | SpawnWorker Worker

text \<open>\<open>&buf[key]\<close>: the entry is default-constructed unless the key is there.\<close>

definition bufEntry ::
  "(DirectoryKey \<rightharpoonup> DirectoryValue) \<times> DispatchEvent list \<Rightarrow> DirectoryKey
     \<Rightarrow> (DirectoryKey \<rightharpoonup> DirectoryValue) \<times> DispatchEvent list"
where
  "bufEntry be key =
     (if fst be key = None then ((fst be)(key \<mapsto> emptyDirectoryValue), snd be @ [BufInsert key])
      else be)"

text \<open>
  The loop "init worker threads". \<open>legacy\<close> says that the build is the one with
  \<open>ZEN_LINUX_TRAVERSER_LEGACY\<close>.
\<close>

fun initWorkers ::
  "bool \<Rightarrow> (AbstractPath \<rightharpoonup> nat) \<Rightarrow> (AbstractPath \<times> DirectoryKey list) list
     \<Rightarrow> (DirectoryKey \<rightharpoonup> DirectoryValue) \<times> Worker list \<times> DispatchEvent list
     \<Rightarrow> (DirectoryKey \<rightharpoonup> DirectoryValue) \<times> Worker list \<times> DispatchEvent list"
where
  "initWorkers legacy deviceParallelOps [] st = st"
| "initWorkers legacy deviceParallelOps ((rootPath, keys) # rest) (buf, worker, evs) =
     (let idx = int (length worker);
          parallelOps = (if legacy then 1
                         else max (case deviceParallelOps rootPath of Some n \<Rightarrow> n | None \<Rightarrow> 1) 1);
          (buf', evs') = foldl bufEntry (buf, evs) keys;
          w = \<lparr>workerRoot = rootPath, workerIdx = idx, workerParallelOps = parallelOps,
               workload = keys\<rparr>
      in initWorkers legacy deviceParallelOps rest (buf', worker @ [w], evs' @ [SpawnWorker w]))"

record FillBufferResult =
  outcome :: "ObserverFailure + unit"
  bufOut :: "DirectoryKey \<rightharpoonup> DirectoryValue"
  observerCalls :: "ObserverCall list"
  dispatchEvents :: "DispatchEvent list"
  workers :: "Worker list"

definition fillBuffer ::
  "Collaborators \<Rightarrow> bool \<Rightarrow> WorkerAction list \<Rightarrow> DirectoryKey list
     \<Rightarrow> (DirectoryKey \<rightharpoonup> DirectoryValue) \<Rightarrow> (AbstractPath \<rightharpoonup> nat) \<Rightarrow> FillBufferCallback \<Rightarrow> int
     \<Rightarrow> FillBufferResult option"
where
  "fillBuffer ext legacy sched foldersToRead buf deviceParallelOps callback interval =
     (let cleared = Map.empty;
          perDeviceFolders = groupByDevice ext foldersToRead;
          a = newAsyncCallback (of_nat (length perDeviceFolders)) interval;
          (buf1, worker, evs) =
             initWorkers legacy deviceParallelOps perDeviceFolders (cleared, [], [BufClear])
      in case waitUntilDone ext callback sched \<lparr>sAcb = a, sBuf = buf1\<rparr> [] of
           None \<Rightarrow> None
         | Some (res, s, calls) \<Rightarrow>
             Some \<lparr>outcome = res, bufOut = sBuf s, observerCalls = calls,
                   dispatchEvents = evs, workers = worker\<rparr>)"

text \<open>
  The order that the workers rely on, as a property of the dispatcher's events: at every
  spawn, the entries of the spawned worker's own workload have been inserted before.
\<close>

definition spawnedAfterOwnInserts :: "DispatchEvent list \<Rightarrow> bool" where
  "spawnedAfterOwnInserts evs =
     (\<forall>i<length evs.
        case evs ! i of
          SpawnWorker w \<Rightarrow> (\<forall>k\<in>set (workload w). BufInsert k \<in> set (take i evs))
        | _ \<Rightarrow> True)"

text \<open>What holds of \<open>buf\<close> and of the events while the dispatcher runs.\<close>

definition dispatchInvariant ::
  "(DirectoryKey \<rightharpoonup> DirectoryValue) \<times> DispatchEvent list \<Rightarrow> bool"
where
  "dispatchInvariant be =
     (dom (fst be) = {k. BufInsert k \<in> set (snd be)}
      \<and> spawnedAfterOwnInserts (snd be)
      \<and> (\<exists>rest. snd be = BufClear # rest \<and> BufClear \<notin> set rest))"

text \<open>
  The events of the dispatcher as the amended claim C9 words them: for each device in
  turn, one insertion for every key of the device, then the spawn of the device's worker,
  whose index is the number of workers spawned before.
\<close>

fun perDeviceEvents ::
  "bool \<Rightarrow> (AbstractPath \<rightharpoonup> nat) \<Rightarrow> nat \<Rightarrow> (AbstractPath \<times> DirectoryKey list) list
     \<Rightarrow> DispatchEvent list"
where
  "perDeviceEvents legacy deviceParallelOps n [] = []"
| "perDeviceEvents legacy deviceParallelOps n ((rootPath, keys) # rest) =
     map BufInsert keys
     @ [SpawnWorker
          \<lparr>workerRoot = rootPath, workerIdx = int n,
           workerParallelOps =
             (if legacy then 1
              else max (case deviceParallelOps rootPath of Some m \<Rightarrow> m | None \<Rightarrow> 1) 1),
           workload = keys\<rparr>]
     @ perDeviceEvents legacy deviceParallelOps (Suc n) rest"

subsection \<open>States of the coordinator and paths of the snapshot\<close>

text \<open>
  The shared states that a run can reach: the coordinator as the dispatcher constructs it,
  changed by steps of the workers and by the foreground storing its answer to an error.
\<close>

inductive reachable :: "Shared \<Rightarrow> bool" where
  created: "reachable \<lparr>sAcb = newAsyncCallback n interval, sBuf = buf\<rparr>"
| worker: "reachable s \<Longrightarrow> reachable (applyAction act s)"
| foreground: "reachable s \<Longrightarrow> reachable (onAcb (\<lambda>a. a\<lparr>errorResponse := Some rv\<rparr>) s)"

code_pred reachable .

text \<open>
  What relates \<open>notifyingThreadIdx\<close> to \<open>activeThreadIdxs\<close> in every reachable state:
  the map is in ascending key order and the reporting worker is its first key.
\<close>

definition reportingInvariant :: "AsyncCallback \<Rightarrow> bool" where
  "reportingInvariant a =
     (sorted (map fst (activeThreadIdxs a))
      \<and> notifyingThreadIdx a
          = (if activeThreadIdxs a = [] then 0 else fst (hd (activeThreadIdxs a))))"

text \<open>
  The entries of a folder tree, each with its relative path and whether it is a folder
  node: \<open>pf\<close> is the relative path of the container, postfixed with the separator (empty
  for the root). \<open>recordedPaths\<close> are the relative paths of all entries, \<open>recordedFiles\<close>
  those of the file and symlink records, \<open>recordedFolders\<close> those of the folder nodes.
\<close>

fun treeEntries :: "Zstring \<Rightarrow> FolderContainer \<Rightarrow> (Zstring \<times> bool) list"
  and entriesBelow :: "Zstring \<Rightarrow> Item \<Rightarrow> (Zstring \<times> bool) list"
where
  "treeEntries pf [] = []"
| "treeEntries pf ((name, it) # rest) =
     (pf @ name, case it of SubFolder fl sub \<Rightarrow> True | _ \<Rightarrow> False)
       # entriesBelow (pf @ name @ [FILE_NAME_SEPARATOR]) it @ treeEntries pf rest"
| "entriesBelow pf (SubFolder fl sub) = treeEntries pf sub"
| "entriesBelow pf (FileRecord t sz i fl) = []"
| "entriesBelow pf (SymlinkRecord t) = []"

definition recordedPaths :: "Zstring \<Rightarrow> FolderContainer \<Rightarrow> Zstring list" where
  "recordedPaths pf c = map fst (treeEntries pf c)"

definition recordedFiles :: "FolderContainer \<Rightarrow> Zstring list" where
  "recordedFiles c = map fst (filter (\<lambda>e. \<not> snd e) (treeEntries [] c))"

definition recordedFolders :: "FolderContainer \<Rightarrow> Zstring list" where
  "recordedFolders c = map fst (filter snd (treeEntries [] c))"

text \<open>
  The relative path, postfixed with the separator, of the folder that a reference into
  the tree leads to; and the relative path of the folder that a callback works on, which
  is the key under which \<open>reportDirError\<close> records.
\<close>

definition pathPrefix :: "FolderRef \<Rightarrow> Zstring" where
  "pathPrefix ref = concat (map (\<lambda>n. n @ [FILE_NAME_SEPARATOR]) ref)"

definition ownFolder :: "DirCallback \<Rightarrow> Zstring" where
  "ownFolder cb = beforeLast (parentRelPathPf cb) FILE_NAME_SEPARATOR IF_MISSING_RETURN_NONE"

subsection \<open>The calls of a traversal\<close>

text \<open>
  Modelled from the spec: the traversal primitive \<open>AFS::traverseFolderParallel\<close> is not in
  parallel\_scan.cpp. All it does to the \<open>DirectoryValue\<close> of a base folder is to call the
  callbacks it holds: the base callback, constructed on the default-constructed
  \<open>DirectoryValue\<close> that \<open>fillBuffer\<close> has inserted, and the child callbacks that
  \<open>onFolder\<close> has returned. \<open>scan ext key st cbs F D E\<close> says that \<open>st\<close> is the state
  after some sequence of such calls, with any arguments, clock readings, interruptions and
  decisions, and with any changes that other threads make to the coordinator between
  them; \<open>cbs\<close> are the callbacks constructed so far. \<open>F\<close>, \<open>D\<close> and \<open>E\<close> remember what
  the traversal has reported: \<open>F\<close> holds the relative paths reported through \<open>onFile\<close>,
  and through \<open>onSymlink\<close> unless the answer was to follow the link; \<open>D\<close> holds the
  relative paths reported through \<open>onFolder\<close>; \<open>E\<close> holds those reported through
  \<open>reportItemError\<close> when the decision was CONTINUE.
\<close>

inductive scan ::
  "Collaborators \<Rightarrow> DirectoryKey \<Rightarrow> ScanState \<Rightarrow> DirCallback set
     \<Rightarrow> Zstring set \<Rightarrow> Zstring set \<Rightarrow> Zstring set \<Rightarrow> bool"
  for ext :: Collaborators and key :: DirectoryKey
where
  baseCall:
    "BaseDirCallback ext now key idx
         \<lparr>dirValue = emptyDirectoryValue, acb = a, lastReportTime = t\<rparr> = (cb, st)
     \<Longrightarrow> scan ext key st {cb} {} {} {}"
| fileCall:
    "scan ext key st cbs F D E \<Longrightarrow> cb \<in> cbs
     \<Longrightarrow> scan ext key (snd (onFile ext interrupted now cb fi st)) cbs
           (insert (parentRelPathPf cb @ itemName fi) F) D E"
| linkCall:
    "scan ext key st cbs F D E \<Longrightarrow> cb \<in> cbs
     \<Longrightarrow> onSymlink ext interrupted now cb si st = (r, st')
     \<Longrightarrow> scan ext key st' cbs
           (if r = Inr LINK_FOLLOW then F else insert (parentRelPathPf cb @ linkName si) F) D E"
| folderCall:
    "scan ext key st cbs F D E \<Longrightarrow> cb \<in> cbs
     \<Longrightarrow> onFolder ext observer interrupted now cb fo st = Some (r, st')
     \<Longrightarrow> scan ext key st'
           (case r of Inr (Some child) \<Rightarrow> insert child cbs | _ \<Rightarrow> cbs)
           F (insert (parentRelPathPf cb @ folderName fo) D) E"
| dirErrorCall:
    "scan ext key st cbs F D E \<Longrightarrow> cb \<in> cbs
     \<Longrightarrow> scan ext key (snd (reportDirError observer cb msg n st)) cbs F D E"
| itemErrorCall:
    "scan ext key st cbs F D E \<Longrightarrow> cb \<in> cbs
     \<Longrightarrow> reportItemError observer cb msg n name st = (r, st')
     \<Longrightarrow> scan ext key st' cbs F D
           (if r = Inr ON_ERROR_CONTINUE then insert (parentRelPathPf cb @ name) E else E)"
| otherThreads:
    "scan ext key st cbs F D E \<Longrightarrow> scan ext key (st\<lparr>acb := a\<rparr>) cbs F D E"

text \<open>What holds of the state, the callbacks and the reported paths after every call.\<close>

definition scanInvariant ::
  "DirectoryKey \<Rightarrow> ScanState \<Rightarrow> DirCallback set \<Rightarrow> Zstring set \<Rightarrow> Zstring set \<Rightarrow> Zstring set
     \<Rightarrow> bool"
where
  "scanInvariant key st cbs F D E =
     (set (recordedFiles (folderCont (dirValue st))) \<subseteq> F
      \<and> set (recordedFolders (folderCont (dirValue st))) \<subseteq> D
      \<and> dom (failedItemReads (dirValue st)) \<subseteq> D \<union> E
      \<and> dom (failedFolderReads (dirValue st)) \<subseteq> ownFolder ` cbs
      \<and> ownFolder ` cbs \<subseteq> insert [] D
      \<and> (\<forall>cb\<in>cbs. parentRelPathPf cb = pathPrefix (outputRef cb)
                    \<and> filterRef (cfg cb) = keyFilter key)
      \<and> (\<forall>p\<in>set (recordedFiles (folderCont (dirValue st))). passFileFilter (keyFilter key) p)
      \<and> (\<forall>p\<in>set (recordedFolders (folderCont (dirValue st))).
            fst (passDirFilter (keyFilter key) p) \<or> snd (passDirFilter (keyFilter key) p)))"

subsection \<open>Concrete inputs\<close>

text \<open>
  Collaborators, filters, keys, observers and callbacks on which the functions above are
  evaluated: base folders /dev1/x and /dev2/y on the root devices /dev1 and /dev2.
\<close>

definition exampleExt :: Collaborators where
  "exampleExt =
     \<lparr>getDisplayPath = (\<lambda>p. p),
      appendRelPath = (\<lambda>p r. p @ ''/'' @ r),
      getRootPath = take 5,
      lessPath = (\<lambda>a b. (a, b) \<in> lexord {(c, d). (of_char c :: nat) < of_char d}),
      translate = (\<lambda>t. t),
      translatePlural = (\<lambda>one many n. many),
      replaceCpy = (\<lambda>t old new. t @ '' '' @ new),
      toString = (\<lambda>e. case e of FileError a b \<Rightarrow> a @ '' '' @ b)\<rparr>"

definition passAll :: HardFilter where
  "passAll = \<lparr>passFileFilter = (\<lambda>p. True), passDirFilter = (\<lambda>p. (True, True))\<rparr>"

definition rejectAll :: HardFilter where
  "rejectAll = \<lparr>passFileFilter = (\<lambda>p. False), passDirFilter = (\<lambda>p. (False, False))\<rparr>"

definition rejectDirsButChildren :: HardFilter where
  "rejectDirsButChildren =
     \<lparr>passFileFilter = (\<lambda>p. True), passDirFilter = (\<lambda>p. (False, True))\<rparr>"

definition keyX :: DirectoryKey where
  "keyX = \<lparr>folderPath = ''/dev1/x'', keyFilter = passAll, keyHandleSymlinks = DIRECT\<rparr>"

definition keyY :: DirectoryKey where
  "keyY = \<lparr>folderPath = ''/dev2/y'', keyFilter = passAll, keyHandleSymlinks = DIRECT\<rparr>"

definition quietObserver :: FillBufferCallback where
  "quietObserver =
     \<lparr>cbReportStatus = (\<lambda>calls status n. True),
      cbReportError = (\<lambda>calls msg n. Some ON_ERROR_CONTINUE)\<rparr>"

definition failingObserver :: FillBufferCallback where
  "failingObserver =
     \<lparr>cbReportStatus = (\<lambda>calls status n. False),
      cbReportError = (\<lambda>calls msg n. None)\<rparr>"

definition alwaysContinue :: "string \<Rightarrow> nat \<Rightarrow> ForegroundReply" where
  "alwaysContinue msg n = Response ON_ERROR_CONTINUE"

definition alwaysRetry :: "string \<Rightarrow> nat \<Rightarrow> ForegroundReply" where
  "alwaysRetry msg n = Response ON_ERROR_RETRY"

definition retryTwice :: "string \<Rightarrow> nat \<Rightarrow> ForegroundReply" where
  "retryTwice msg n = (if n < 2 then Response ON_ERROR_RETRY else Response ON_ERROR_CONTINUE)"

definition freshState :: ScanState where
  "freshState =
     \<lparr>dirValue = emptyDirectoryValue, acb = newAsyncCallback 1 50, lastReportTime = 0\<rparr>"

text \<open>A state whose tree holds the folder deep, for a callback that works on that folder.\<close>

definition deepState :: ScanState where
  "deepState =
     freshState\<lparr>dirValue := emptyDirectoryValue
        \<lparr>folderCont := [(''deep'', SubFolder False [])]\<rparr>\<rparr>"

definition callbackWith :: "HardFilter \<Rightarrow> Zstring \<Rightarrow> FolderRef \<Rightarrow> int \<Rightarrow> DirCallback" where
  "callbackWith flt pf ref lvl =
     \<lparr>cfg = \<lparr>baseFolderPath = ''/dev1/x'', filterRef = flt, handleSymlinks = DIRECT,
              threadIdx = 0\<rparr>,
      parentRelPathPf = pf, outputRef = ref, level = lvl\<rparr>"

definition fileA :: FileInfo where
  "fileA = \<lparr>itemName = ''a.txt'', fileSize = 10, modTime = 1, fileId = ''id1'',
            symlinkInfo = None\<rparr>"

definition folderSub :: FolderInfo where
  "folderSub = \<lparr>folderName = ''sub'', folderSymlinkInfo = None\<rparr>"

definition linkL :: SymlinkInfo where
  "linkL = \<lparr>linkName = ''l'', linkModTime = 7\<rparr>"

text \<open>
  Two calls in the order the traversal makes them: the base callback of /dev1/x is told
  of the folder sub, then the enumeration of sub fails, is reported through the child
  callback, and the observer answers CONTINUE.
\<close>

definition subFolderVisited :: "((Failure + DirCallback option) \<times> ScanState) option" where
  "subFolderVisited =
     onFolder exampleExt alwaysContinue False 0
       (fst (BaseDirCallback exampleExt 0 keyX 0 freshState)) folderSub freshState"

definition subFolderListingFailed :: ScanState where
  "subFolderListingFailed =
     (case subFolderVisited of
        Some (Inr (Some child), st) \<Rightarrow> snd (reportDirError alwaysContinue child ''denied'' 0 st)
      | _ \<Rightarrow> freshState)"

text \<open>
  A filter that rejects the file secret.key and the folder private, and admits every
  other folder only because a child might match; the base folder /dev1/x under that
  filter; and the state after a traversal of it has reported the files a.txt and
  secret.key, the folders sub and private, and the symlink l inside sub.
\<close>

definition hideSecret :: HardFilter where
  "hideSecret =
     \<lparr>passFileFilter = (\<lambda>p. p \<noteq> ''secret.key''),
      passDirFilter = (\<lambda>p. (False, p \<noteq> ''private''))\<rparr>"

definition keyZ :: DirectoryKey where
  "keyZ = \<lparr>folderPath = ''/dev1/x'', keyFilter = hideSecret, keyHandleSymlinks = DIRECT\<rparr>"

definition fileSecret :: FileInfo where
  "fileSecret = \<lparr>itemName = ''secret.key'', fileSize = 32, modTime = 2, fileId = ''id2'',
                 symlinkInfo = None\<rparr>"

definition folderPrivate :: FolderInfo where
  "folderPrivate = \<lparr>folderName = ''private'', folderSymlinkInfo = None\<rparr>"

definition filteredScan :: ScanState where
  "filteredScan =
     (let cb = callbackWith hideSecret [] [] 0;
          s1 = snd (onFile exampleExt False 0 cb fileA freshState);
          s2 = snd (onFile exampleExt False 0 cb fileSecret s1)
      in case onFolder exampleExt alwaysContinue False 0 cb folderSub s2 of
           Some (Inr (Some child), s3) \<Rightarrow>
             (case onFolder exampleExt alwaysContinue False 0 cb folderPrivate s3 of
                Some (r, s4) \<Rightarrow> snd (onSymlink exampleExt False 0 child linkL s4)
              | None \<Rightarrow> s3)
         | _ \<Rightarrow> s2)"

text \<open>
  The state after a traversal of /dev1/x has reported the file a.txt and the folder sub,
  has failed to enumerate sub and to read the item b.txt, and was told to continue both
  times.
\<close>

definition failedScan :: ScanState where
  "failedScan =
     (let cb = callbackWith passAll [] [] 0;
          s1 = snd (onFile exampleExt False 0 cb fileA freshState)
      in case onFolder exampleExt alwaysContinue False 0 cb folderSub s1 of
           Some (Inr (Some child), s2) \<Rightarrow>
             snd (reportItemError alwaysContinue cb ''unreadable'' 0 ''b.txt''
                    (snd (reportDirError alwaysContinue child ''denied'' 0 s2)))
         | _ \<Rightarrow> s1)"

text \<open>
  A shared state after worker 1 and worker 0 have begun and worker 0 has ended, and the
  two workers that the dispatcher spawns for /dev1/x and /dev2/y.
\<close>

definition exampleShared :: Shared where
  "exampleShared =
     applyAction (WorkEnd 0) (applyAction (WorkBegin 0 1) (applyAction (WorkBegin 1 2)
       \<lparr>sAcb = newAsyncCallback 2 50, sBuf = Map.empty\<rparr>))"

definition workerX :: Worker where
  "workerX = \<lparr>workerRoot = ''/dev1'', workerIdx = 0, workerParallelOps = 1, workload = [keyX]\<rparr>"

definition workerY :: Worker where
  "workerY = \<lparr>workerRoot = ''/dev2'', workerIdx = 1, workerParallelOps = 1, workload = [keyY]\<rparr>"

section \<open>Properties\<close>

subsection \<open>Helpers of the snapshot model\<close>

lemma beforeLast_snoc: "beforeLast (p @ [c]) c m = p"
  by (simp add: beforeLast_def)

lemma containerAt_modifyAt:
  "containerAt p (modifyAt p f c) = map_option f (containerAt p c)"
proof (induction p arbitrary: c)
  case Nil
  show ?case by simp
next
  case (Cons n ns)
  show ?case
  proof (cases "map_of c n")
    case None
    then show ?thesis by simp
  next
    case (Some it)
    then show ?thesis using Cons.IH
      by (cases it) (simp_all add: update_conv')
  qed
qed

lemma dirValue_updateStatus: "dirValue (updateStatus i now t st) = dirValue st"
  by (simp add: updateStatus_def split: prod.splits bool.splits)

lemma itemsScanned_updateStatus:
  "itemsScanned (acb (updateStatus i now t st)) = itemsScanned (acb st)"
  by (simp add: updateStatus_def reportCurrentFile_def split: prod.splits bool.splits)

lemma dirValue_countItem: "dirValue (countItem st) = dirValue st"
  by (simp add: countItem_def)

lemma itemsScanned_countItem: "itemsScanned (acb (countItem st)) = itemsScanned (acb st) + 1"
  by (simp add: countItem_def incItemsScanned_def)

lemma acb_modifyOutput: "acb (modifyOutput cb f st) = acb st"
  by (simp add: modifyOutput_def)

lemma folderCont_modifyOutput:
  "folderCont (dirValue (modifyOutput cb f st))
     = modifyAt (outputRef cb) f (folderCont (dirValue st))"
  by (simp add: modifyOutput_def)

lemma failedFolderReads_modifyOutput:
  "failedFolderReads (dirValue (modifyOutput cb f st)) = failedFolderReads (dirValue st)"
  by (simp add: modifyOutput_def)

lemma failedItemReads_modifyOutput:
  "failedItemReads (dirValue (modifyOutput cb f st)) = failedItemReads (dirValue st)"
  by (simp add: modifyOutput_def)

subsection \<open>The error handlers\<close>

text \<open>
  C7. When the coordinator's decision is CONTINUE, \<open>reportDirError\<close> stores the message in
  \<open>failedFolderReads\<close> under the part of the parent-relative prefix before its final
  separator, \<open>reportItemError\<close> stores it in \<open>failedItemReads\<close> under the prefix followed by
  the item name, and both return CONTINUE. When the decision is RETRY both return RETRY
  and leave the two error maps (the whole \<open>DirectoryValue\<close>) as they were. For a prefix
  \<open>p/\<close> the key of \<open>reportDirError\<close> is \<open>p\<close>.
\<close>

theorem error_handlers_record_on_continue:
  "(observer msg n = Response ON_ERROR_CONTINUE \<longrightarrow>
      fst (reportDirError observer cb msg n st) = Inr ON_ERROR_CONTINUE
    \<and> failedFolderReads (dirValue (snd (reportDirError observer cb msg n st)))
        = (failedFolderReads (dirValue st))
            (beforeLast (parentRelPathPf cb) FILE_NAME_SEPARATOR IF_MISSING_RETURN_NONE \<mapsto> msg)
    \<and> failedItemReads (dirValue (snd (reportDirError observer cb msg n st)))
        = failedItemReads (dirValue st)
    \<and> fst (reportItemError observer cb msg n name st) = Inr ON_ERROR_CONTINUE
    \<and> failedItemReads (dirValue (snd (reportItemError observer cb msg n name st)))
        = (failedItemReads (dirValue st))(parentRelPathPf cb @ name \<mapsto> msg)
    \<and> failedFolderReads (dirValue (snd (reportItemError observer cb msg n name st)))
        = failedFolderReads (dirValue st))
  \<and> (observer msg n = Response ON_ERROR_RETRY \<longrightarrow>
      fst (reportDirError observer cb msg n st) = Inr ON_ERROR_RETRY
    \<and> fst (reportItemError observer cb msg n name st) = Inr ON_ERROR_RETRY
    \<and> dirValue (snd (reportDirError observer cb msg n st)) = dirValue st
    \<and> dirValue (snd (reportItemError observer cb msg n name st)) = dirValue st)
  \<and> (\<forall>p. parentRelPathPf cb = p @ [FILE_NAME_SEPARATOR] \<longrightarrow>
        beforeLast (parentRelPathPf cb) FILE_NAME_SEPARATOR IF_MISSING_RETURN_NONE = p)"
  by (simp add: reportDirError_def reportItemError_def reportError_def beforeLast_snoc)

theorem error_handlers_record_on_continue_witness:
  "alwaysContinue ''failed'' 0 = Response ON_ERROR_CONTINUE
   \<and> retryTwice ''failed'' 0 = Response ON_ERROR_RETRY
   \<and> parentRelPathPf (callbackWith passAll ''sub/'' [''sub''] 1) = ''sub'' @ [FILE_NAME_SEPARATOR]
   \<and> failedFolderReads (dirValue (snd (reportDirError alwaysContinue
         (callbackWith passAll ''sub/'' [''sub''] 1) ''failed'' 0 freshState))) ''sub''
       = Some ''failed''
   \<and> failedItemReads (dirValue (snd (reportItemError alwaysContinue
         (callbackWith passAll ''sub/'' [''sub''] 1) ''failed'' 0 ''f'' freshState))) ''sub/f''
       = Some ''failed''
   \<and> reportDirError retryTwice (callbackWith passAll ''sub/'' [''sub''] 1) ''failed'' 0 freshState
       = (Inr ON_ERROR_RETRY, freshState)
   \<and> fst (reportItemError retryTwice (callbackWith passAll ''sub/'' [''sub''] 1)
            ''failed'' 0 ''f'' freshState) = Inr ON_ERROR_RETRY"
proof -
  let ?cb = "callbackWith passAll ''sub/'' [''sub''] 1"
  have c: "alwaysContinue ''failed'' 0 = Response ON_ERROR_CONTINUE"
    by (simp add: alwaysContinue_def)
  have r: "retryTwice ''failed'' 0 = Response ON_ERROR_RETRY"
    by (simp add: retryTwice_def)
  have p: "parentRelPathPf ?cb = ''sub'' @ [FILE_NAME_SEPARATOR]"
    by (simp add: callbackWith_def FILE_NAME_SEPARATOR_def)
  have u: "reportDirError retryTwice ?cb ''failed'' 0 freshState = (Inr ON_ERROR_RETRY, freshState)"
    by (simp add: reportDirError_def reportError_def retryTwice_def freshState_def
          newAsyncCallback_def)
  note a = error_handlers_record_on_continue
             [where observer = alwaysContinue and msg = "''failed''" and n = 0 and cb = ?cb
                and st = freshState and name = "''f''"]
  note b = error_handlers_record_on_continue
             [where observer = retryTwice and msg = "''failed''" and n = 0 and cb = ?cb
                and st = freshState and name = "''f''"]
  from a b c r p u show ?thesis
    by (simp add: callbackWith_def)
qed

text \<open>
  C10. The base callback is constructed with the empty parent-relative prefix; the part of
  the empty string before the final separator, with nothing returned when the separator
  is missing, is the empty string; so when the enumeration of the base folder fails and
  the decision is CONTINUE, the message is stored in \<open>failedFolderReads\<close> under the empty
  relative path.
\<close>

theorem base_folder_error_under_empty_path:
  assumes "observer msg n = Response ON_ERROR_CONTINUE"
  shows "parentRelPathPf (fst (BaseDirCallback ext now0 key idx st0)) = []
    \<and> beforeLast [] FILE_NAME_SEPARATOR IF_MISSING_RETURN_NONE = []
    \<and> fst (reportDirError observer (fst (BaseDirCallback ext now0 key idx st0)) msg n st)
        = Inr ON_ERROR_CONTINUE
    \<and> failedFolderReads (dirValue (snd (reportDirError observer
          (fst (BaseDirCallback ext now0 key idx st0)) msg n st)))
        = (failedFolderReads (dirValue st))([] \<mapsto> msg)"
  using assms
  by (simp add: BaseDirCallback_def reportDirError_def reportError_def beforeLast_def)

theorem base_folder_error_under_empty_path_witness:
  "alwaysContinue ''denied'' 0 = Response ON_ERROR_CONTINUE
   \<and> failedFolderReads (dirValue (snd (reportDirError alwaysContinue
         (fst (BaseDirCallback exampleExt 0 keyX 0 freshState)) ''denied'' 0
         (snd (BaseDirCallback exampleExt 0 keyX 0 freshState))))) [] = Some ''denied''"
proof -
  have c: "alwaysContinue ''denied'' 0 = Response ON_ERROR_CONTINUE"
    by (simp add: alwaysContinue_def)
  from base_folder_error_under_empty_path
         [where observer = alwaysContinue and msg = "''denied''" and n = 0 and ext = exampleExt
            and ?now0.0 = 0 and key = keyX and idx = 0 and ?st0.0 = freshState
            and st = "snd (BaseDirCallback exampleExt 0 keyX 0 freshState)", OF c] c
  show ?thesis by simp
qed

subsection \<open>onFile\<close>

text \<open>
  C6. For a call of \<open>onFile\<close> that passes its interruption point: an entry whose name ends
  with the database or the lock suffix is skipped, the state stays as it was (nothing
  recorded, nothing counted). Otherwise, when \<open>passFileFilter\<close> rejects the full relative
  path the call returns and the \<open>DirectoryValue\<close> and \<open>itemsScanned\<close> are unchanged.
  Otherwise the current \<open>FolderContainer\<close> gets, under the entry's name, a \<open>FileRecord\<close>
  with the entry's modification time, size, file id and symlink-origin flag, and
  \<open>itemsScanned\<close> grows by exactly one.
\<close>

theorem onFile_skips_filters_records:
  assumes "\<not> interrupted"
  shows "(endsWith (itemName fi) SYNC_DB_FILE_ENDING \<or> endsWith (itemName fi) LOCK_FILE_ENDING \<longrightarrow>
            onFile ext interrupted now cb fi st = (Inr (), st))
    \<and> (\<not> endsWith (itemName fi) SYNC_DB_FILE_ENDING \<and> \<not> endsWith (itemName fi) LOCK_FILE_ENDING
         \<and> \<not> passFileFilter (filterRef (cfg cb)) (parentRelPathPf cb @ itemName fi) \<longrightarrow>
            fst (onFile ext interrupted now cb fi st) = Inr ()
          \<and> dirValue (snd (onFile ext interrupted now cb fi st)) = dirValue st
          \<and> itemsScanned (acb (snd (onFile ext interrupted now cb fi st))) = itemsScanned (acb st))
    \<and> (\<not> endsWith (itemName fi) SYNC_DB_FILE_ENDING \<and> \<not> endsWith (itemName fi) LOCK_FILE_ENDING
         \<and> passFileFilter (filterRef (cfg cb)) (parentRelPathPf cb @ itemName fi) \<longrightarrow>
            fst (onFile ext interrupted now cb fi st) = Inr ()
          \<and> containerAt (outputRef cb)
                (folderCont (dirValue (snd (onFile ext interrupted now cb fi st))))
              = map_option
                  (addSubFile (itemName fi)
                     (FileRecord (modTime fi) (fileSize fi) (fileId fi) (symlinkInfo fi \<noteq> None)))
                  (containerAt (outputRef cb) (folderCont (dirValue st)))
          \<and> map_of (addSubFile (itemName fi)
                     (FileRecord (modTime fi) (fileSize fi) (fileId fi) (symlinkInfo fi \<noteq> None)) c)
              = (map_of c)(itemName fi \<mapsto>
                   FileRecord (modTime fi) (fileSize fi) (fileId fi) (symlinkInfo fi \<noteq> None))
          \<and> itemsScanned (acb (snd (onFile ext interrupted now cb fi st)))
              = itemsScanned (acb st) + 1)"
  using assms
  by (simp add: onFile_def Let_def dirValue_updateStatus itemsScanned_updateStatus
        dirValue_countItem itemsScanned_countItem acb_modifyOutput folderCont_modifyOutput
        containerAt_modifyAt addSubFile_def update_conv')

theorem onFile_skips_filters_records_witness:
  "\<not> False
   \<and> endsWith ''sync.ffs_db'' SYNC_DB_FILE_ENDING
   \<and> onFile exampleExt False 100 (callbackWith passAll [] [] 0)
        (fileA\<lparr>itemName := ''sync.ffs_db''\<rparr>) freshState = (Inr (), freshState)
   \<and> \<not> passFileFilter rejectAll ''a.txt''
   \<and> dirValue (snd (onFile exampleExt False 100 (callbackWith rejectAll [] [] 0) fileA freshState))
       = dirValue freshState
   \<and> passFileFilter passAll ''a.txt''
   \<and> folderCont (dirValue (snd (onFile exampleExt False 100 (callbackWith passAll [] [] 0)
        fileA freshState))) = [(''a.txt'', FileRecord 1 10 ''id1'' False)]
   \<and> itemsScanned (acb (snd (onFile exampleExt False 100 (callbackWith passAll [] [] 0)
        fileA freshState))) = 1"
proof -
  have i: "\<not> False" by simp
  have e: "endsWith ''sync.ffs_db'' SYNC_DB_FILE_ENDING"
    by (simp add: endsWith_def SYNC_DB_FILE_ENDING_def)
  have n: "\<not> endsWith ''a.txt'' SYNC_DB_FILE_ENDING \<and> \<not> endsWith ''a.txt'' LOCK_FILE_ENDING"
    by (simp add: endsWith_def SYNC_DB_FILE_ENDING_def LOCK_FILE_ENDING_def)
  note d = onFile_skips_filters_records
             [where interrupted = False and fi = "fileA\<lparr>itemName := ''sync.ffs_db''\<rparr>"
                and ext = exampleExt and now = 100 and cb = "callbackWith passAll [] [] 0"
                and st = freshState and c = "[]", OF i]
  note r = onFile_skips_filters_records
             [where interrupted = False and fi = fileA and ext = exampleExt and now = 100
                and cb = "callbackWith rejectAll [] [] 0" and st = freshState and c = "[]", OF i]
  note a = onFile_skips_filters_records
             [where interrupted = False and fi = fileA and ext = exampleExt and now = 100
                and cb = "callbackWith passAll [] [] 0" and st = freshState and c = "[]", OF i]
  from d r a e n show ?thesis
    by (simp add: callbackWith_def fileA_def passAll_def rejectAll_def freshState_def
          emptyDirectoryValue_def newAsyncCallback_def addSubFile_def)
qed

subsection \<open>The retry loop of tryReportingItemError\<close>

lemma retry_until_continue:
  assumes "\<forall>k<m. observer (toString ext e) (n + k) = Response ON_ERROR_RETRY"
      and "observer (toString ext e) (n + m) = Response ON_ERROR_CONTINUE"
  shows "tryReportingItemErrorFrom ext observer (Some e) cb name n st
           = Some (Inr False,
                   st\<lparr>acb := (acb st)\<lparr>errorRequest := None, errorResponse := None\<rparr>,
                      dirValue := (dirValue st)
                        \<lparr>failedItemReads := (failedItemReads (dirValue st))
                           (parentRelPathPf cb @ name \<mapsto> toString ext e)\<rparr>\<rparr>)"
  using assms
proof (induction m arbitrary: n st)
  case 0
  then show ?case
    by (subst tryReportingItemErrorFrom.simps)
       (simp add: reportItemError_def reportError_def)
next
  case (Suc m)
  from Suc.prems(1) have first: "observer (toString ext e) n = Response ON_ERROR_RETRY"
    by (metis add.right_neutral zero_less_Suc)
  have later: "\<forall>k<m. observer (toString ext e) (Suc n + k) = Response ON_ERROR_RETRY"
    using Suc.prems(1) by (metis Suc_less_eq add_Suc_shift)
  have last: "observer (toString ext e) (Suc n + m) = Response ON_ERROR_CONTINUE"
    using Suc.prems(2) by simp
  have ih: "tryReportingItemErrorFrom ext observer (Some e) cb name (Suc n)
              (st\<lparr>acb := (acb st)\<lparr>errorRequest := None, errorResponse := None\<rparr>\<rparr>)
            = Some (Inr False,
                   st\<lparr>acb := (acb st)\<lparr>errorRequest := None, errorResponse := None\<rparr>,
                      dirValue := (dirValue st)
                        \<lparr>failedItemReads := (failedItemReads (dirValue st))
                           (parentRelPathPf cb @ name \<mapsto> toString ext e)\<rparr>\<rparr>)"
    using Suc.IH [OF later last,
            of "st\<lparr>acb := (acb st)\<lparr>errorRequest := None, errorResponse := None\<rparr>\<rparr>"]
    by (simp add: fun_upd_def)
  show ?case
    by (subst tryReportingItemErrorFrom.simps)
       (simp add: reportItemError_def reportError_def first ih)
qed

lemma retry_forever:
  assumes "\<forall>k. observer (toString ext e) k = Response ON_ERROR_RETRY"
  shows "tryReportingItemErrorFrom ext observer (Some e) cb name n st = None"
proof (rule ccontr)
  assume "tryReportingItemErrorFrom ext observer (Some e) cb name n st \<noteq> None"
  then obtain y where y: "tryReportingItemErrorFrom ext observer (Some e) cb name n st = Some y"
    by auto
  have "\<exists>k. observer (toString ext e) k \<noteq> Response ON_ERROR_RETRY"
    by (rule tryReportingItemErrorFrom.raw_induct
          [where P = "\<lambda>ext' observer' cmd' cb' name' n' st' y'.
                        \<forall>e'. cmd' = Some e' \<longrightarrow>
                          (\<exists>k. observer' (toString ext' e') k \<noteq> Response ON_ERROR_RETRY)",
           OF _ y, rule_format])
       (auto simp: reportItemError_def reportError_def
             split: option.splits prod.splits sum.splits HandleError.splits
                    ForegroundReply.splits,
        (metis ForegroundReply.distinct ForegroundReply.inject HandleError.distinct)+)
  with assms show False by simp
qed

lemma retry_frame:
  assumes "tryReportingItemErrorFrom ext observer cmd cb name n st = Some y"
  shows "folderCont (dirValue (snd y)) = folderCont (dirValue st)
       \<and> failedFolderReads (dirValue (snd y)) = failedFolderReads (dirValue st)
       \<and> (\<forall>k. k \<noteq> parentRelPathPf cb @ name \<longrightarrow>
             failedItemReads (dirValue (snd y)) k = failedItemReads (dirValue st) k)"
  by (rule tryReportingItemErrorFrom.raw_induct
        [where P = "\<lambda>ext' observer' cmd' cb' name' n' st' y'.
             folderCont (dirValue (snd y')) = folderCont (dirValue st')
           \<and> failedFolderReads (dirValue (snd y')) = failedFolderReads (dirValue st')
           \<and> (\<forall>k. k \<noteq> parentRelPathPf cb' @ name' \<longrightarrow>
                 failedItemReads (dirValue (snd y')) k = failedItemReads (dirValue st') k)",
         OF _ assms])
     (auto simp: reportItemError_def reportError_def
           split: option.splits prod.splits sum.splits HandleError.splits
                  ForegroundReply.splits)

lemma addSubFolder_adds: "\<exists>sub. map_of (addSubFolder name fl c) name = Some (SubFolder fl sub)"
  by (auto simp: addSubFolder_def update_conv' split: option.splits Item.splits)

subsection \<open>onFolder\<close>

text \<open>
  C2, as stated, fails: a directory entry that the filter excludes (\<open>passDirFilter\<close> false
  and \<open>childItemMightMatch\<close> false) gets no child callback although the level is 0, and
  no folder node.
\<close>

theorem onFolder_excluded_directory_counterexample:
  "level (callbackWith rejectAll [] [] 0) \<le> 100
   \<and> onFolder exampleExt alwaysContinue False 0 (callbackWith rejectAll [] [] 0) folderSub
        freshState = Some (Inr None, freshState)"
  by (simp add: onFolder_def callbackWith_def rejectAll_def folderSub_def freshState_def
        updateStatus_def mayReportCurrentFile_def dist_def wrap64_def newAsyncCallback_def)

lemma onFolder_admitted:
  assumes "\<not> interrupted"
      and "fst (passDirFilter (filterRef (cfg cb)) (parentRelPathPf cb @ folderName fi))
           \<or> snd (passDirFilter (filterRef (cfg cb)) (parentRelPathPf cb @ folderName fi))"
  shows "(level cb \<le> 100 \<longrightarrow>
           (\<exists>st'. onFolder ext observer interrupted now cb fi st
                    = Some (Inr (Some \<lparr>cfg = cfg cb,
                                        parentRelPathPf = parentRelPathPf cb @ folderName fi
                                                            @ [FILE_NAME_SEPARATOR],
                                        outputRef = outputRef cb @ [folderName fi],
                                        level = level cb + 1\<rparr>), st')
              \<and> containerAt (outputRef cb) (folderCont (dirValue st'))
                  = map_option (addSubFolder (folderName fi) (folderSymlinkInfo fi \<noteq> None))
                      (containerAt (outputRef cb) (folderCont (dirValue st)))
              \<and> folderCont (dirValue st')
                  = modifyAt (outputRef cb)
                      (addSubFolder (folderName fi) (folderSymlinkInfo fi \<noteq> None))
                      (folderCont (dirValue st))
              \<and> failedItemReads (dirValue st') = failedItemReads (dirValue st)
              \<and> failedFolderReads (dirValue st') = failedFolderReads (dirValue st)))
    \<and> (level cb > 100
         \<and> (\<forall>k<m. observer (toString ext (endlessRecursionError ext (cfg cb)
                        (parentRelPathPf cb @ folderName fi))) k = Response ON_ERROR_RETRY)
         \<and> observer (toString ext (endlessRecursionError ext (cfg cb)
                        (parentRelPathPf cb @ folderName fi))) m = Response ON_ERROR_CONTINUE \<longrightarrow>
           (\<exists>st'. onFolder ext observer interrupted now cb fi st = Some (Inr None, st')
              \<and> containerAt (outputRef cb) (folderCont (dirValue st'))
                  = map_option (addSubFolder (folderName fi) (folderSymlinkInfo fi \<noteq> None))
                      (containerAt (outputRef cb) (folderCont (dirValue st)))
              \<and> folderCont (dirValue st')
                  = modifyAt (outputRef cb)
                      (addSubFolder (folderName fi) (folderSymlinkInfo fi \<noteq> None))
                      (folderCont (dirValue st))
              \<and> failedItemReads (dirValue st')
                  = (failedItemReads (dirValue st))
                      (parentRelPathPf cb @ folderName fi \<mapsto>
                         toString ext (endlessRecursionError ext (cfg cb)
                           (parentRelPathPf cb @ folderName fi)))
              \<and> failedFolderReads (dirValue st') = failedFolderReads (dirValue st)))
    \<and> (level cb > 100
         \<and> (\<forall>k. observer (toString ext (endlessRecursionError ext (cfg cb)
                        (parentRelPathPf cb @ folderName fi))) k = Response ON_ERROR_RETRY) \<longrightarrow>
           onFolder ext observer interrupted now cb fi st = None)
    \<and> (\<exists>sub. map_of (addSubFolder (folderName fi) (folderSymlinkInfo fi \<noteq> None) c) (folderName fi)
                = Some (SubFolder (folderSymlinkInfo fi \<noteq> None) sub))"
proof -
  let ?rel = "parentRelPathPf cb @ folderName fi"
  let ?e = "endlessRecursionError ext (cfg cb) ?rel"
  obtain pass might where pm: "passDirFilter (filterRef (cfg cb)) ?rel = (pass, might)"
    by (cases "passDirFilter (filterRef (cfg cb)) ?rel")
  with assms(2) have adm: "pass \<or> might" by simp
  have shallow: "\<exists>st'. onFolder ext observer interrupted now cb fi st
                    = Some (Inr (Some \<lparr>cfg = cfg cb,
                                        parentRelPathPf = parentRelPathPf cb @ folderName fi
                                                            @ [FILE_NAME_SEPARATOR],
                                        outputRef = outputRef cb @ [folderName fi],
                                        level = level cb + 1\<rparr>), st')
              \<and> containerAt (outputRef cb) (folderCont (dirValue st'))
                  = map_option (addSubFolder (folderName fi) (folderSymlinkInfo fi \<noteq> None))
                      (containerAt (outputRef cb) (folderCont (dirValue st)))
              \<and> folderCont (dirValue st')
                  = modifyAt (outputRef cb)
                      (addSubFolder (folderName fi) (folderSymlinkInfo fi \<noteq> None))
                      (folderCont (dirValue st))
              \<and> failedItemReads (dirValue st') = failedItemReads (dirValue st)
              \<and> failedFolderReads (dirValue st') = failedFolderReads (dirValue st)"
    if "level cb \<le> 100"
    using that assms(1) adm pm
    by (auto simp: onFolder_def Let_def dirValue_countItem folderCont_modifyOutput
          dirValue_updateStatus containerAt_modifyAt failedItemReads_modifyOutput
          failedFolderReads_modifyOutput)
  have deep: "\<exists>st'. onFolder ext observer interrupted now cb fi st = Some (Inr None, st')
              \<and> containerAt (outputRef cb) (folderCont (dirValue st'))
                  = map_option (addSubFolder (folderName fi) (folderSymlinkInfo fi \<noteq> None))
                      (containerAt (outputRef cb) (folderCont (dirValue st)))
              \<and> folderCont (dirValue st')
                  = modifyAt (outputRef cb)
                      (addSubFolder (folderName fi) (folderSymlinkInfo fi \<noteq> None))
                      (folderCont (dirValue st))
              \<and> failedItemReads (dirValue st')
                  = (failedItemReads (dirValue st))(?rel \<mapsto> toString ext ?e)
              \<and> failedFolderReads (dirValue st') = failedFolderReads (dirValue st)"
    if h: "100 < level cb
         \<and> (\<forall>k<m. observer (toString ext ?e) k = Response ON_ERROR_RETRY)
         \<and> observer (toString ext ?e) m = Response ON_ERROR_CONTINUE"
  proof -
    have loop: "tryReportingItemErrorFrom ext observer (Some ?e) cb (folderName fi) 0 s
           = Some (Inr False,
                   s\<lparr>acb := (acb s)\<lparr>errorRequest := None, errorResponse := None\<rparr>,
                     dirValue := (dirValue s)
                        \<lparr>failedItemReads := (failedItemReads (dirValue s))
                           (?rel \<mapsto> toString ext ?e)\<rparr>\<rparr>)" for s
      using h retry_until_continue [where n = 0 and m = m and observer = observer and ext = ext
                and e = ?e and cb = cb and name = "folderName fi" and st = s]
      by simp
    from h assms(1) adm pm show ?thesis
      by (auto simp: onFolder_def Let_def tryReportingItemError_def loop dirValue_countItem
            folderCont_modifyOutput dirValue_updateStatus containerAt_modifyAt
            failedItemReads_modifyOutput failedFolderReads_modifyOutput)
  qed
  have stuck: "onFolder ext observer interrupted now cb fi st = None"
    if h: "100 < level cb
         \<and> (\<forall>k. observer (toString ext ?e) k = Response ON_ERROR_RETRY)"
  proof -
    from h have loop:
      "tryReportingItemErrorFrom ext observer (Some ?e) cb (folderName fi) 0 s = None" for s
      by (simp add: retry_forever)
    from h assms(1) adm pm show ?thesis
      by (auto simp: onFolder_def Let_def tryReportingItemError_def loop)
  qed
  show ?thesis
    apply (intro conjI impI)
       apply (erule shallow)
      apply (erule deep)
     apply (erule stuck)
    apply (rule addSubFolder_adds)
    done
qed

lemma containerAt_snoc:
  "containerAt (p @ [n]) c =
     (case containerAt p c of
        None \<Rightarrow> None
      | Some d \<Rightarrow> (case map_of d n of Some (SubFolder fl sub) \<Rightarrow> Some sub | _ \<Rightarrow> None))"
proof (induction p arbitrary: c)
  case Nil
  show ?case by (simp split: option.splits Item.splits)
next
  case (Cons m ms)
  show ?case
  proof (cases "map_of c m")
    case None
    then show ?thesis by simp
  next
    case (Some it)
    then show ?thesis using Cons.IH by (cases it) simp_all
  qed
qed

lemma onFolder_excluded:
  assumes "\<not> interrupted"
      and "\<not> fst (passDirFilter (filterRef (cfg cb)) (parentRelPathPf cb @ folderName fi))"
      and "\<not> snd (passDirFilter (filterRef (cfg cb)) (parentRelPathPf cb @ folderName fi))"
  shows "\<exists>st'. onFolder ext observer interrupted now cb fi st = Some (Inr None, st')
           \<and> dirValue st' = dirValue st \<and> itemsScanned (acb st') = itemsScanned (acb st)"
  using assms
  by (cases "passDirFilter (filterRef (cfg cb)) (parentRelPathPf cb @ folderName fi)")
     (simp add: onFolder_def Let_def dirValue_updateStatus itemsScanned_updateStatus)

lemma child_reference_valid:
  assumes "containerAt ref root = Some c"
  shows "\<exists>sub. map_of (addSubFolder name fl c) name = Some (SubFolder fl sub)
           \<and> containerAt (ref @ [name]) (modifyAt ref (addSubFolder name fl) root) = Some sub"
proof -
  from addSubFolder_adds [of name fl c] obtain sub
    where sub: "map_of (addSubFolder name fl c) name = Some (SubFolder fl sub)" by blast
  from assms have "containerAt ref (modifyAt ref (addSubFolder name fl) root)
                     = Some (addSubFolder name fl c)"
    by (simp add: containerAt_modifyAt)
  with sub have "containerAt (ref @ [name]) (modifyAt ref (addSubFolder name fl) root) = Some sub"
    by (simp add: containerAt_snoc)
  with sub show ?thesis by blast
qed

text \<open>
  C2, amended. For a call of \<open>onFolder\<close> that passes its interruption point:
  a directory entry that the filter excludes (\<open>passDirFilter\<close> false and
  \<open>childItemMightMatch\<close> false) gets no child callback, no folder node and no error
  entry, at any level. For an entry that the filter does not exclude the folder node is
  added to the current container, and: at a level of at most 100 the child callback is
  returned, at level + 1, with the prefix extended by the child name and the separator,
  and with a reference that leads to the container of the new node; at a level above 100
  the endless-recursion error goes through \<open>reportItemError\<close>, and once the answer is
  CONTINUE (after any number of RETRY answers) no child callback is returned and the
  message is in \<open>failedItemReads\<close>, not in \<open>failedFolderReads\<close>, under the folder's
  relative path; as long as every answer is RETRY the call does not return.
\<close>

theorem onFolder_descends_unless_too_deep:
  assumes "\<not> interrupted"
  shows "(\<not> fst (passDirFilter (filterRef (cfg cb)) (parentRelPathPf cb @ folderName fi))
          \<and> \<not> snd (passDirFilter (filterRef (cfg cb)) (parentRelPathPf cb @ folderName fi)) \<longrightarrow>
           (\<exists>st'. onFolder ext observer interrupted now cb fi st = Some (Inr None, st')
              \<and> dirValue st' = dirValue st \<and> itemsScanned (acb st') = itemsScanned (acb st)))
    \<and> (fst (passDirFilter (filterRef (cfg cb)) (parentRelPathPf cb @ folderName fi))
          \<or> snd (passDirFilter (filterRef (cfg cb)) (parentRelPathPf cb @ folderName fi)) \<longrightarrow>
         (level cb \<le> 100 \<longrightarrow>
           (\<exists>st'. onFolder ext observer interrupted now cb fi st
                    = Some (Inr (Some \<lparr>cfg = cfg cb,
                                        parentRelPathPf = parentRelPathPf cb @ folderName fi
                                                            @ [FILE_NAME_SEPARATOR],
                                        outputRef = outputRef cb @ [folderName fi],
                                        level = level cb + 1\<rparr>), st')
              \<and> containerAt (outputRef cb) (folderCont (dirValue st'))
                  = map_option (addSubFolder (folderName fi) (folderSymlinkInfo fi \<noteq> None))
                      (containerAt (outputRef cb) (folderCont (dirValue st)))
              \<and> folderCont (dirValue st')
                  = modifyAt (outputRef cb)
                      (addSubFolder (folderName fi) (folderSymlinkInfo fi \<noteq> None))
                      (folderCont (dirValue st))
              \<and> failedItemReads (dirValue st') = failedItemReads (dirValue st)
              \<and> failedFolderReads (dirValue st') = failedFolderReads (dirValue st)))
       \<and> (level cb > 100
           \<and> (\<forall>k<m. observer (toString ext (endlessRecursionError ext (cfg cb)
                        (parentRelPathPf cb @ folderName fi))) k = Response ON_ERROR_RETRY)
           \<and> observer (toString ext (endlessRecursionError ext (cfg cb)
                        (parentRelPathPf cb @ folderName fi))) m = Response ON_ERROR_CONTINUE \<longrightarrow>
           (\<exists>st'. onFolder ext observer interrupted now cb fi st = Some (Inr None, st')
              \<and> containerAt (outputRef cb) (folderCont (dirValue st'))
                  = map_option (addSubFolder (folderName fi) (folderSymlinkInfo fi \<noteq> None))
                      (containerAt (outputRef cb) (folderCont (dirValue st)))
              \<and> folderCont (dirValue st')
                  = modifyAt (outputRef cb)
                      (addSubFolder (folderName fi) (folderSymlinkInfo fi \<noteq> None))
                      (folderCont (dirValue st))
              \<and> failedItemReads (dirValue st')
                  = (failedItemReads (dirValue st))
                      (parentRelPathPf cb @ folderName fi \<mapsto>
                         toString ext (endlessRecursionError ext (cfg cb)
                           (parentRelPathPf cb @ folderName fi)))
              \<and> failedFolderReads (dirValue st') = failedFolderReads (dirValue st)))
       \<and> (level cb > 100
           \<and> (\<forall>k. observer (toString ext (endlessRecursionError ext (cfg cb)
                        (parentRelPathPf cb @ folderName fi))) k = Response ON_ERROR_RETRY) \<longrightarrow>
           onFolder ext observer interrupted now cb fi st = None))
    \<and> (containerAt (outputRef cb) (folderCont (dirValue st)) = Some c \<longrightarrow>
         (\<exists>sub. map_of (addSubFolder (folderName fi) (folderSymlinkInfo fi \<noteq> None) c)
                   (folderName fi)
                 = Some (SubFolder (folderSymlinkInfo fi \<noteq> None) sub)
            \<and> containerAt (outputRef cb @ [folderName fi])
                 (modifyAt (outputRef cb)
                    (addSubFolder (folderName fi) (folderSymlinkInfo fi \<noteq> None))
                    (folderCont (dirValue st))) = Some sub))"
proof (intro conjI impI)
  assume "\<not> fst (passDirFilter (filterRef (cfg cb)) (parentRelPathPf cb @ folderName fi))
          \<and> \<not> snd (passDirFilter (filterRef (cfg cb)) (parentRelPathPf cb @ folderName fi))"
  with assms show "\<exists>st'. onFolder ext observer interrupted now cb fi st = Some (Inr None, st')
              \<and> dirValue st' = dirValue st \<and> itemsScanned (acb st') = itemsScanned (acb st)"
    by (simp add: onFolder_excluded)
next
  assume adm: "fst (passDirFilter (filterRef (cfg cb)) (parentRelPathPf cb @ folderName fi))
          \<or> snd (passDirFilter (filterRef (cfg cb)) (parentRelPathPf cb @ folderName fi))"
     and "level cb \<le> 100"
  with onFolder_admitted [OF assms adm, of ext observer now st m c]
  show "\<exists>st'. onFolder ext observer interrupted now cb fi st
                    = Some (Inr (Some \<lparr>cfg = cfg cb,
                                        parentRelPathPf = parentRelPathPf cb @ folderName fi
                                                            @ [FILE_NAME_SEPARATOR],
                                        outputRef = outputRef cb @ [folderName fi],
                                        level = level cb + 1\<rparr>), st')
              \<and> containerAt (outputRef cb) (folderCont (dirValue st'))
                  = map_option (addSubFolder (folderName fi) (folderSymlinkInfo fi \<noteq> None))
                      (containerAt (outputRef cb) (folderCont (dirValue st)))
              \<and> folderCont (dirValue st')
                  = modifyAt (outputRef cb)
                      (addSubFolder (folderName fi) (folderSymlinkInfo fi \<noteq> None))
                      (folderCont (dirValue st))
              \<and> failedItemReads (dirValue st') = failedItemReads (dirValue st)
              \<and> failedFolderReads (dirValue st') = failedFolderReads (dirValue st)"
    by simp
next
  assume adm: "fst (passDirFilter (filterRef (cfg cb)) (parentRelPathPf cb @ folderName fi))
          \<or> snd (passDirFilter (filterRef (cfg cb)) (parentRelPathPf cb @ folderName fi))"
     and deep: "100 < level cb
           \<and> (\<forall>k<m. observer (toString ext (endlessRecursionError ext (cfg cb)
                        (parentRelPathPf cb @ folderName fi))) k = Response ON_ERROR_RETRY)
           \<and> observer (toString ext (endlessRecursionError ext (cfg cb)
                        (parentRelPathPf cb @ folderName fi))) m = Response ON_ERROR_CONTINUE"
  with onFolder_admitted [OF assms adm, of ext observer now st m c]
  show "\<exists>st'. onFolder ext observer interrupted now cb fi st = Some (Inr None, st')
              \<and> containerAt (outputRef cb) (folderCont (dirValue st'))
                  = map_option (addSubFolder (folderName fi) (folderSymlinkInfo fi \<noteq> None))
                      (containerAt (outputRef cb) (folderCont (dirValue st)))
              \<and> folderCont (dirValue st')
                  = modifyAt (outputRef cb)
                      (addSubFolder (folderName fi) (folderSymlinkInfo fi \<noteq> None))
                      (folderCont (dirValue st))
              \<and> failedItemReads (dirValue st')
                  = (failedItemReads (dirValue st))
                      (parentRelPathPf cb @ folderName fi \<mapsto>
                         toString ext (endlessRecursionError ext (cfg cb)
                           (parentRelPathPf cb @ folderName fi)))
              \<and> failedFolderReads (dirValue st') = failedFolderReads (dirValue st)"
    by simp
next
  assume adm: "fst (passDirFilter (filterRef (cfg cb)) (parentRelPathPf cb @ folderName fi))
          \<or> snd (passDirFilter (filterRef (cfg cb)) (parentRelPathPf cb @ folderName fi))"
     and "100 < level cb
           \<and> (\<forall>k. observer (toString ext (endlessRecursionError ext (cfg cb)
                        (parentRelPathPf cb @ folderName fi))) k = Response ON_ERROR_RETRY)"
  with onFolder_admitted [OF assms adm, of ext observer now st m c]
  show "onFolder ext observer interrupted now cb fi st = None"
    by simp
next
  assume "containerAt (outputRef cb) (folderCont (dirValue st)) = Some c"
  then show "\<exists>sub. map_of (addSubFolder (folderName fi) (folderSymlinkInfo fi \<noteq> None) c)
                   (folderName fi)
                 = Some (SubFolder (folderSymlinkInfo fi \<noteq> None) sub)
            \<and> containerAt (outputRef cb @ [folderName fi])
                 (modifyAt (outputRef cb)
                    (addSubFolder (folderName fi) (folderSymlinkInfo fi \<noteq> None))
                    (folderCont (dirValue st))) = Some sub"
    by (rule child_reference_valid)
qed

theorem onFolder_descends_unless_too_deep_witness:
  "\<not> False
   \<and> fst (passDirFilter passAll ''sub'')
   \<and> level (callbackWith passAll [] [] 0) \<le> 100
   \<and> map_option fst (onFolder exampleExt alwaysContinue False 0 (callbackWith passAll [] [] 0)
        folderSub freshState)
       = Some (Inr (Some (callbackWith passAll ''sub/'' [''sub''] 1)))
   \<and> folderCont (dirValue (snd (the (onFolder exampleExt alwaysContinue False 0
        (callbackWith passAll [] [] 0) folderSub freshState))))
       = [(''sub'', SubFolder False [])]
   \<and> level (callbackWith passAll ''deep/'' [''deep''] 101) > 100
   \<and> map_option fst (onFolder exampleExt retryTwice False 0
        (callbackWith passAll ''deep/'' [''deep''] 101) folderSub deepState) = Some (Inr None)
   \<and> folderCont (dirValue (snd (the (onFolder exampleExt retryTwice False 0
        (callbackWith passAll ''deep/'' [''deep''] 101) folderSub deepState))))
       = [(''deep'', SubFolder False [(''sub'', SubFolder False [])])]
   \<and> failedItemReads (dirValue (snd (the (onFolder exampleExt retryTwice False 0
        (callbackWith passAll ''deep/'' [''deep''] 101) folderSub deepState)))) ''deep/sub''
       = Some ''Cannot read directory %x. /dev1/x/deep/sub Endless recursion.''
   \<and> onFolder exampleExt alwaysRetry False 0
        (callbackWith passAll ''deep/'' [''deep''] 101) folderSub deepState = None
   \<and> \<not> fst (passDirFilter rejectAll ''deep/sub'') \<and> \<not> snd (passDirFilter rejectAll ''deep/sub'')
   \<and> map_option fst (onFolder exampleExt alwaysContinue False 0
        (callbackWith rejectAll ''deep/'' [''deep''] 101) folderSub deepState) = Some (Inr None)
   \<and> dirValue (snd (the (onFolder exampleExt alwaysContinue False 0
        (callbackWith rejectAll ''deep/'' [''deep''] 101) folderSub deepState)))
       = dirValue deepState
   \<and> containerAt [''deep''] (folderCont (dirValue deepState)) = Some []
   \<and> containerAt [''deep'', ''sub'']
        (modifyAt [''deep''] (addSubFolder ''sub'' False) (folderCont (dirValue deepState)))
       = Some []"
proof -
  let ?top = "callbackWith passAll [] [] 0"
  let ?deep = "callbackWith passAll ''deep/'' [''deep''] 101"
  let ?excl = "callbackWith rejectAll ''deep/'' [''deep''] 101"
  have i: "\<not> False" by simp
  have lt: "level ?top \<le> 100" and ld: "level ?deep > 100"
    by (simp_all add: callbackWith_def)
  have r2: "(\<forall>k<2. retryTwice msg k = Response ON_ERROR_RETRY)
            \<and> retryTwice msg 2 = Response ON_ERROR_CONTINUE" for msg
    by (simp add: retryTwice_def)
  have ra: "\<forall>k. alwaysRetry msg k = Response ON_ERROR_RETRY" for msg
    by (simp add: alwaysRetry_def)
  have valid: "containerAt [''deep''] (folderCont (dirValue deepState)) = Some []"
    by (simp add: deepState_def)
  have facts: "filterRef (cfg ?top) = passAll" "filterRef (cfg ?deep) = passAll"
    "filterRef (cfg ?excl) = rejectAll"
    "parentRelPathPf ?top = []" "parentRelPathPf ?deep = ''deep/''"
    "parentRelPathPf ?excl = ''deep/''"
    "outputRef ?top = []" "outputRef ?deep = [''deep'']" "outputRef ?excl = [''deep'']"
    "folderName folderSub = ''sub''" "folderSymlinkInfo folderSub = None"
    "passDirFilter passAll p = (True, True)" "passDirFilter rejectAll p = (False, False)"
    "folderCont (dirValue freshState) = []"
    "folderCont (dirValue deepState) = [(''deep'', SubFolder False [])]"
    "failedItemReads (dirValue deepState) = Map.empty"
    for p
    by (simp_all add: callbackWith_def folderSub_def passAll_def rejectAll_def freshState_def
          deepState_def emptyDirectoryValue_def)
  have msg: "toString exampleExt (endlessRecursionError exampleExt (cfg ?deep) ''deep/sub'')
               = ''Cannot read directory %x. /dev1/x/deep/sub Endless recursion.''"
    by (simp add: endlessRecursionError_def displayRelPath_def exampleExt_def callbackWith_def)
  note a = onFolder_descends_unless_too_deep
             [where interrupted = False and cb = ?top and fi = folderSub and ext = exampleExt
                and observer = alwaysContinue and now = 0 and st = freshState and m = 0
                and c = "[]", OF i]
  note b = onFolder_descends_unless_too_deep
             [where interrupted = False and cb = ?deep and fi = folderSub and ext = exampleExt
                and observer = retryTwice and now = 0 and st = deepState and m = 2
                and c = "[]", OF i]
  note c = onFolder_descends_unless_too_deep
             [where interrupted = False and cb = ?deep and fi = folderSub and ext = exampleExt
                and observer = alwaysRetry and now = 0 and st = deepState and m = 0
                and c = "[]", OF i]
  note d = onFolder_descends_unless_too_deep
             [where interrupted = False and cb = ?excl and fi = folderSub and ext = exampleExt
                and observer = alwaysContinue and now = 0 and st = deepState and m = 0
                and c = "[]", OF i]
  have ta: "map_option fst (onFolder exampleExt alwaysContinue False 0 ?top folderSub freshState)
              = Some (Inr (Some (callbackWith passAll ''sub/'' [''sub''] 1)))
            \<and> folderCont (dirValue (snd (the (onFolder exampleExt alwaysContinue False 0 ?top
                 folderSub freshState)))) = [(''sub'', SubFolder False [])]"
    using a lt
    by (auto simp: facts addSubFolder_def)
       (simp_all add: callbackWith_def FILE_NAME_SEPARATOR_def)
  have tb: "map_option fst (onFolder exampleExt retryTwice False 0 ?deep folderSub deepState)
              = Some (Inr None)
            \<and> folderCont (dirValue (snd (the (onFolder exampleExt retryTwice False 0 ?deep
                 folderSub deepState))))
               = [(''deep'', SubFolder False [(''sub'', SubFolder False [])])]
            \<and> failedItemReads (dirValue (snd (the (onFolder exampleExt retryTwice False 0 ?deep
                 folderSub deepState)))) ''deep/sub''
               = Some ''Cannot read directory %x. /dev1/x/deep/sub Endless recursion.''"
    using b ld r2
    by (auto simp: facts addSubFolder_def msg)
  have tc: "onFolder exampleExt alwaysRetry False 0 ?deep folderSub deepState = None"
    using c ld ra by (auto simp: facts)
  have td: "map_option fst (onFolder exampleExt alwaysContinue False 0 ?excl folderSub deepState)
              = Some (Inr None)
            \<and> dirValue (snd (the (onFolder exampleExt alwaysContinue False 0 ?excl folderSub
                 deepState))) = dirValue deepState"
    using d by (auto simp: facts)
  have te: "containerAt [''deep'', ''sub'']
              (modifyAt [''deep''] (addSubFolder ''sub'' False) (folderCont (dirValue deepState)))
             = Some []"
    using b valid by (auto simp: facts addSubFolder_def)
  from ta tb tc td te lt ld valid show ?thesis
    by (simp add: passAll_def rejectAll_def)
qed

subsection \<open>The entries of the tree\<close>

lemma set_recordedFiles: "set (recordedFiles c) = {p. (p, False) \<in> set (treeEntries [] c)}"
  by (force simp: recordedFiles_def)

lemma set_recordedFolders: "set (recordedFolders c) = {p. (p, True) \<in> set (treeEntries [] c)}"
  by (force simp: recordedFolders_def)

lemma treeEntries_member:
  "(n, it) \<in> set c \<Longrightarrow>
     (pf @ n, case it of SubFolder fl sub \<Rightarrow> True | _ \<Rightarrow> False) \<in> set (treeEntries pf c)
     \<and> set (entriesBelow (pf @ n @ [FILE_NAME_SEPARATOR]) it) \<subseteq> set (treeEntries pf c)"
  by (induction c) auto

lemma treeEntries_update:
  "set (treeEntries pf (AList.update n it c))
     \<subseteq> set (treeEntries pf c)
        \<union> insert (pf @ n, case it of SubFolder fl sub \<Rightarrow> True | _ \<Rightarrow> False)
            (set (entriesBelow (pf @ n @ [FILE_NAME_SEPARATOR]) it))"
proof (induction c)
  case Nil
  show ?case by simp
next
  case (Cons e c)
  obtain k v where e: "e = (k, v)" by (cases e)
  show ?case
  proof (cases "k = n")
    case True
    with e show ?thesis by auto
  next
    case False
    with e Cons.IH show ?thesis by auto
  qed
qed

lemma treeEntries_modifyAt:
  assumes "\<And>c. set (treeEntries (pf @ pathPrefix ref) (f c))
                  \<subseteq> set (treeEntries (pf @ pathPrefix ref) c) \<union> X"
  shows "set (treeEntries pf (modifyAt ref f c)) \<subseteq> set (treeEntries pf c) \<union> X"
  using assms
proof (induction ref arbitrary: pf c)
  case Nil
  then show ?case by (simp add: pathPrefix_def)
next
  case (Cons n ns)
  show ?case
  proof (cases "map_of c n")
    case None
    then show ?thesis by simp
  next
    case (Some it)
    show ?thesis
    proof (cases it)
      case (SubFolder fl sub)
      have step: "\<And>d. set (treeEntries ((pf @ n @ [FILE_NAME_SEPARATOR]) @ pathPrefix ns) (f d))
                    \<subseteq> set (treeEntries ((pf @ n @ [FILE_NAME_SEPARATOR]) @ pathPrefix ns) d) \<union> X"
        using Cons.prems by (simp add: pathPrefix_def)
      from Cons.IH [OF step]
      have inner: "set (treeEntries (pf @ n @ [FILE_NAME_SEPARATOR]) (modifyAt ns f sub))
                     \<subseteq> set (treeEntries (pf @ n @ [FILE_NAME_SEPARATOR]) sub) \<union> X" .
      from Some SubFolder have mem: "(n, SubFolder fl sub) \<in> set c"
        by (simp add: map_of_SomeD)
      from treeEntries_member [OF mem, of pf]
      have old: "(pf @ n, True) \<in> set (treeEntries pf c)
                 \<and> set (treeEntries (pf @ n @ [FILE_NAME_SEPARATOR]) sub) \<subseteq> set (treeEntries pf c)"
        by simp
      from treeEntries_update [of pf n "SubFolder fl (modifyAt ns f sub)" c]
      have "set (treeEntries pf (AList.update n (SubFolder fl (modifyAt ns f sub)) c))
              \<subseteq> set (treeEntries pf c)
                 \<union> insert (pf @ n, True)
                     (set (treeEntries (pf @ n @ [FILE_NAME_SEPARATOR]) (modifyAt ns f sub)))"
        by simp
      with inner old Some SubFolder show ?thesis by auto
    qed (use Some in simp_all)
  qed
qed

lemma treeEntries_addRecord:
  assumes "entriesBelow (pf @ n @ [FILE_NAME_SEPARATOR]) it = []"
      and "(case it of SubFolder fl sub \<Rightarrow> True | _ \<Rightarrow> False) = False"
  shows "set (treeEntries pf (AList.update n it c))
           \<subseteq> insert (pf @ n, False) (set (treeEntries pf c))"
  using treeEntries_update [of pf n it c] assms by auto

lemma treeEntries_addSubFolder:
  "set (treeEntries pf (addSubFolder n fl c)) \<subseteq> insert (pf @ n, True) (set (treeEntries pf c))"
proof (cases "\<exists>old sub. map_of c n = Some (SubFolder old sub)")
  case True
  then obtain old sub where there: "map_of c n = Some (SubFolder old sub)" by blast
  then have mem: "(n, SubFolder old sub) \<in> set c" by (simp add: map_of_SomeD)
  from treeEntries_member [OF mem, of pf]
  have "set (treeEntries (pf @ n @ [FILE_NAME_SEPARATOR]) sub) \<subseteq> set (treeEntries pf c)"
    by simp
  with treeEntries_update [of pf n "SubFolder fl sub" c] there show ?thesis
    by (auto simp: addSubFolder_def)
next
  case False
  then have "addSubFolder n fl c = AList.update n (SubFolder fl []) c"
    by (auto simp: addSubFolder_def split: option.splits Item.splits)
  with treeEntries_update [of pf n "SubFolder fl []" c] show ?thesis
    by auto
qed

text \<open>What one call adds to the entries of the tree, for a callback whose prefix is that
  of its reference.\<close>

lemma folderCont_onFile:
  "folderCont (dirValue (snd (onFile ext interrupted now cb fi st)))
     = (if \<not> interrupted
           \<and> \<not> endsWith (itemName fi) SYNC_DB_FILE_ENDING
           \<and> \<not> endsWith (itemName fi) LOCK_FILE_ENDING
           \<and> passFileFilter (filterRef (cfg cb)) (parentRelPathPf cb @ itemName fi)
        then modifyAt (outputRef cb)
               (addSubFile (itemName fi)
                  (FileRecord (modTime fi) (fileSize fi) (fileId fi) (symlinkInfo fi \<noteq> None)))
               (folderCont (dirValue st))
        else folderCont (dirValue st))"
  by (simp add: onFile_def Let_def dirValue_updateStatus dirValue_countItem
        folderCont_modifyOutput)

lemma folderCont_onSymlink:
  "folderCont (dirValue (snd (onSymlink ext interrupted now cb si st)))
     = (if \<not> interrupted \<and> handleSymlinks (cfg cb) = DIRECT
           \<and> passFileFilter (filterRef (cfg cb)) (parentRelPathPf cb @ linkName si)
        then modifyAt (outputRef cb)
               (addSubLink (linkName si) (SymlinkRecord (linkModTime si)))
               (folderCont (dirValue st))
        else folderCont (dirValue st))"
  by (simp add: onSymlink_def Let_def dirValue_updateStatus dirValue_countItem
        folderCont_modifyOutput split: SymLinkHandling.splits)

lemma follow_onSymlink:
  "fst (onSymlink ext interrupted now cb si st) = Inr LINK_FOLLOW
     \<Longrightarrow> handleSymlinks (cfg cb) = FOLLOW"
  by (auto simp: onSymlink_def Let_def split: if_splits SymLinkHandling.splits)

lemma entries_onFile:
  assumes "parentRelPathPf cb = pathPrefix (outputRef cb)"
  shows "set (treeEntries [] (folderCont (dirValue (snd (onFile ext interrupted now cb fi st)))))
           \<subseteq> set (treeEntries [] (folderCont (dirValue st)))
              \<union> (if passFileFilter (filterRef (cfg cb)) (parentRelPathPf cb @ itemName fi)
                  then {(parentRelPathPf cb @ itemName fi, False)} else {})"
proof -
  have "set (treeEntries [] (modifyAt (outputRef cb)
               (addSubFile (itemName fi) (FileRecord t sz i fl)) c))
          \<subseteq> set (treeEntries [] c) \<union> {(parentRelPathPf cb @ itemName fi, False)}" for t sz i fl c
    by (intro treeEntries_modifyAt, simp add: addSubFile_def assms [symmetric],
        rule treeEntries_addRecord) simp_all
  from this [of "modTime fi" "fileSize fi" "fileId fi" "symlinkInfo fi \<noteq> None"
               "folderCont (dirValue st)"]
  show ?thesis
    by (simp add: folderCont_onFile) blast
qed

lemma entries_onSymlink:
  assumes "parentRelPathPf cb = pathPrefix (outputRef cb)"
      and "onSymlink ext interrupted now cb si st = (r, st')"
  shows "set (treeEntries [] (folderCont (dirValue st')))
           \<subseteq> set (treeEntries [] (folderCont (dirValue st)))
              \<union> (if passFileFilter (filterRef (cfg cb)) (parentRelPathPf cb @ linkName si)
                     \<and> r \<noteq> Inr LINK_FOLLOW
                  then {(parentRelPathPf cb @ linkName si, False)} else {})"
proof -
  have "set (treeEntries [] (modifyAt (outputRef cb)
               (addSubLink (linkName si) (SymlinkRecord t)) c))
          \<subseteq> set (treeEntries [] c) \<union> {(parentRelPathPf cb @ linkName si, False)}" for t c
    by (intro treeEntries_modifyAt, simp add: addSubLink_def assms(1) [symmetric],
        rule treeEntries_addRecord) simp_all
  note sub = this [of "linkModTime si" "folderCont (dirValue st)"]
  from assms(2) have st': "st' = snd (onSymlink ext interrupted now cb si st)"
    and r: "r = fst (onSymlink ext interrupted now cb si st)" by simp_all
  show ?thesis
  proof (cases "r = Inr LINK_FOLLOW")
    case True
    with r follow_onSymlink [of ext interrupted now cb si st]
    have "handleSymlinks (cfg cb) = FOLLOW" by simp
    with st' show ?thesis by (simp add: folderCont_onSymlink)
  next
    case False
    with sub st' show ?thesis
      by (simp add: folderCont_onSymlink) blast
  qed
qed

lemma folderCont_onFolder:
  assumes "onFolder ext observer interrupted now cb fo st = Some (r, st')"
  shows "folderCont (dirValue st')
           = (if \<not> interrupted
                 \<and> (fst (passDirFilter (filterRef (cfg cb)) (parentRelPathPf cb @ folderName fo))
                    \<or> snd (passDirFilter (filterRef (cfg cb))
                             (parentRelPathPf cb @ folderName fo)))
              then modifyAt (outputRef cb)
                     (addSubFolder (folderName fo) (folderSymlinkInfo fo \<noteq> None))
                     (folderCont (dirValue st))
              else folderCont (dirValue st))"
proof (cases "passDirFilter (filterRef (cfg cb)) (parentRelPathPf cb @ folderName fo)")
  case (Pair pass might)
  show ?thesis
  proof (cases "\<not> interrupted \<and> (pass \<or> might) \<and> level cb > 100")
    case False
    with assms Pair show ?thesis
      by (auto simp: onFolder_def Let_def dirValue_updateStatus dirValue_countItem
            folderCont_modifyOutput split: if_splits)
  next
    case True
    let ?st3 = "if pass
                then countItem (modifyOutput cb
                       (addSubFolder (folderName fo) (folderSymlinkInfo fo \<noteq> None))
                       (updateStatus (threadIdx (cfg cb)) now
                          (displayRelPath ext (cfg cb) (parentRelPathPf cb @ folderName fo)) st))
                else modifyOutput cb
                       (addSubFolder (folderName fo) (folderSymlinkInfo fo \<noteq> None))
                       (updateStatus (threadIdx (cfg cb)) now
                          (displayRelPath ext (cfg cb) (parentRelPathPf cb @ folderName fo)) st)"
    from assms Pair True obtain y where
      y: "tryReportingItemErrorFrom ext observer
            (Some (endlessRecursionError ext (cfg cb) (parentRelPathPf cb @ folderName fo)))
            cb (folderName fo) 0 ?st3 = Some y"
      and ry: "st' = snd y"
      by (auto simp: onFolder_def Let_def tryReportingItemError_def
            split: if_splits option.splits prod.splits sum.splits)
    have "folderCont (dirValue ?st3)
            = modifyAt (outputRef cb)
                (addSubFolder (folderName fo) (folderSymlinkInfo fo \<noteq> None))
                (folderCont (dirValue st))"
      by (simp add: dirValue_countItem folderCont_modifyOutput dirValue_updateStatus)
    with retry_frame [OF y] ry True Pair show ?thesis
      by simp
  qed
qed

lemma entries_onFolder:
  assumes "parentRelPathPf cb = pathPrefix (outputRef cb)"
      and "onFolder ext observer interrupted now cb fo st = Some (r, st')"
  shows "set (treeEntries [] (folderCont (dirValue st')))
           \<subseteq> set (treeEntries [] (folderCont (dirValue st)))
              \<union> (if fst (passDirFilter (filterRef (cfg cb)) (parentRelPathPf cb @ folderName fo))
                     \<or> snd (passDirFilter (filterRef (cfg cb))
                              (parentRelPathPf cb @ folderName fo))
                  then {(parentRelPathPf cb @ folderName fo, True)} else {})"
proof -
  have "set (treeEntries [] (modifyAt (outputRef cb) (addSubFolder (folderName fo) fl) c))
          \<subseteq> set (treeEntries [] c) \<union> {(parentRelPathPf cb @ folderName fo, True)}" for fl c
    by (intro treeEntries_modifyAt, simp add: assms(1) [symmetric],
        rule treeEntries_addSubFolder)
  from this [of "folderSymlinkInfo fo \<noteq> None" "folderCont (dirValue st)"]
       folderCont_onFolder [OF assms(2)]
  show ?thesis
    by (simp split: if_splits) blast+
qed

lemma errors_onFolder:
  assumes "onFolder ext observer interrupted now cb fo st = Some (r, st')"
  shows "failedFolderReads (dirValue st') = failedFolderReads (dirValue st)
       \<and> (\<forall>k. k \<noteq> parentRelPathPf cb @ folderName fo \<longrightarrow>
             failedItemReads (dirValue st') k = failedItemReads (dirValue st) k)
       \<and> (level cb \<le> 100 \<longrightarrow> failedItemReads (dirValue st') = failedItemReads (dirValue st))"
proof (cases "passDirFilter (filterRef (cfg cb)) (parentRelPathPf cb @ folderName fo)")
  case (Pair pass might)
  show ?thesis
  proof (cases "\<not> interrupted \<and> (pass \<or> might) \<and> level cb > 100")
    case False
    with assms Pair show ?thesis
      by (auto simp: onFolder_def Let_def dirValue_updateStatus dirValue_countItem
            failedFolderReads_modifyOutput failedItemReads_modifyOutput split: if_splits)
  next
    case True
    let ?st3 = "if pass
                then countItem (modifyOutput cb
                       (addSubFolder (folderName fo) (folderSymlinkInfo fo \<noteq> None))
                       (updateStatus (threadIdx (cfg cb)) now
                          (displayRelPath ext (cfg cb) (parentRelPathPf cb @ folderName fo)) st))
                else modifyOutput cb
                       (addSubFolder (folderName fo) (folderSymlinkInfo fo \<noteq> None))
                       (updateStatus (threadIdx (cfg cb)) now
                          (displayRelPath ext (cfg cb) (parentRelPathPf cb @ folderName fo)) st)"
    from assms Pair True obtain y where
      y: "tryReportingItemErrorFrom ext observer
            (Some (endlessRecursionError ext (cfg cb) (parentRelPathPf cb @ folderName fo)))
            cb (folderName fo) 0 ?st3 = Some y"
      and ry: "st' = snd y"
      by (auto simp: onFolder_def Let_def tryReportingItemError_def
            split: if_splits option.splits prod.splits sum.splits)
    have st3: "failedFolderReads (dirValue ?st3) = failedFolderReads (dirValue st)
               \<and> failedItemReads (dirValue ?st3) = failedItemReads (dirValue st)"
      by (simp add: dirValue_countItem failedFolderReads_modifyOutput
            failedItemReads_modifyOutput dirValue_updateStatus)
    from retry_frame [OF y] ry st3 True show ?thesis
      by simp
  qed
qed

lemma child_of_onFolder:
  assumes "onFolder ext observer interrupted now cb fo st = Some (Inr (Some child), st')"
  shows "child = \<lparr>cfg = cfg cb,
                  parentRelPathPf = (parentRelPathPf cb @ folderName fo) @ [FILE_NAME_SEPARATOR],
                  outputRef = outputRef cb @ [folderName fo], level = level cb + 1\<rparr>"
  using assms
  by (cases "passDirFilter (filterRef (cfg cb)) (parentRelPathPf cb @ folderName fo)")
     (auto simp: onFolder_def Let_def split: if_splits option.splits prod.splits sum.splits)

subsection \<open>The invariant of a traversal\<close>

lemma scanInvariant_step:
  assumes inv: "scanInvariant key st cbs F D E"
      and entries: "set (treeEntries [] (folderCont (dirValue st')))
                      \<subseteq> set (treeEntries [] (folderCont (dirValue st))) \<union> A"
      and files: "\<forall>p. (p, False) \<in> A \<longrightarrow> p \<in> F' \<and> passFileFilter (keyFilter key) p"
      and folders: "\<forall>p. (p, True) \<in> A \<longrightarrow> p \<in> D'
                      \<and> (fst (passDirFilter (keyFilter key) p) \<or> snd (passDirFilter (keyFilter key) p))"
      and itemErrors: "dom (failedItemReads (dirValue st'))
                         \<subseteq> dom (failedItemReads (dirValue st)) \<union> (D' \<union> E')"
      and folderErrors: "dom (failedFolderReads (dirValue st'))
                           \<subseteq> dom (failedFolderReads (dirValue st)) \<union> ownFolder ` cbs"
      and grow: "F \<subseteq> F'" "D \<subseteq> D'" "E \<subseteq> E'" "cbs \<subseteq> cbs'"
      and fresh: "\<forall>cb\<in>cbs'. cb \<notin> cbs \<longrightarrow>
                    parentRelPathPf cb = pathPrefix (outputRef cb)
                    \<and> filterRef (cfg cb) = keyFilter key \<and> ownFolder cb \<in> D'"
  shows "scanInvariant key st' cbs' F' D' E'"
proof -
  from inv have i1: "\<forall>p. (p, False) \<in> set (treeEntries [] (folderCont (dirValue st))) \<longrightarrow>
                       p \<in> F \<and> passFileFilter (keyFilter key) p"
    and i2: "\<forall>p. (p, True) \<in> set (treeEntries [] (folderCont (dirValue st))) \<longrightarrow>
                p \<in> D \<and> (fst (passDirFilter (keyFilter key) p)
                           \<or> snd (passDirFilter (keyFilter key) p))"
    and i3: "dom (failedItemReads (dirValue st)) \<subseteq> D \<union> E"
    and i4: "dom (failedFolderReads (dirValue st)) \<subseteq> ownFolder ` cbs"
    and i5: "ownFolder ` cbs \<subseteq> insert [] D"
    and i6: "\<forall>cb\<in>cbs. parentRelPathPf cb = pathPrefix (outputRef cb)
                        \<and> filterRef (cfg cb) = keyFilter key"
    by (auto simp: scanInvariant_def set_recordedFiles set_recordedFolders)
  have c1: "\<forall>p. (p, False) \<in> set (treeEntries [] (folderCont (dirValue st'))) \<longrightarrow>
              p \<in> F' \<and> passFileFilter (keyFilter key) p"
    using entries i1 files grow(1) by blast
  have c2: "\<forall>p. (p, True) \<in> set (treeEntries [] (folderCont (dirValue st'))) \<longrightarrow>
              p \<in> D' \<and> (fst (passDirFilter (keyFilter key) p)
                          \<or> snd (passDirFilter (keyFilter key) p))"
    using entries i2 folders grow(2) by blast
  have c3: "dom (failedItemReads (dirValue st')) \<subseteq> D' \<union> E'"
    using itemErrors i3 grow(2) grow(3) by blast
  have c4: "dom (failedFolderReads (dirValue st')) \<subseteq> ownFolder ` cbs'"
    using folderErrors i4 grow(4) by blast
  have c5: "ownFolder ` cbs' \<subseteq> insert [] D'"
    using i5 grow(2) fresh by blast
  have c6: "\<forall>cb\<in>cbs'. parentRelPathPf cb = pathPrefix (outputRef cb)
                        \<and> filterRef (cfg cb) = keyFilter key"
    using i6 fresh by blast
  from c1 c2 c3 c4 c5 c6 show ?thesis
    by (auto simp: scanInvariant_def set_recordedFiles set_recordedFolders)
qed

lemma errors_onFile:
  "failedFolderReads (dirValue (snd (onFile ext interrupted now cb fi st)))
     = failedFolderReads (dirValue st)
   \<and> failedItemReads (dirValue (snd (onFile ext interrupted now cb fi st)))
     = failedItemReads (dirValue st)"
  by (simp add: onFile_def Let_def dirValue_updateStatus dirValue_countItem
        failedFolderReads_modifyOutput failedItemReads_modifyOutput)

lemma errors_onSymlink:
  "failedFolderReads (dirValue (snd (onSymlink ext interrupted now cb si st)))
     = failedFolderReads (dirValue st)
   \<and> failedItemReads (dirValue (snd (onSymlink ext interrupted now cb si st)))
     = failedItemReads (dirValue st)"
  by (simp add: onSymlink_def Let_def dirValue_updateStatus dirValue_countItem
        failedFolderReads_modifyOutput failedItemReads_modifyOutput
        split: SymLinkHandling.splits)

lemma effect_reportDirError:
  "folderCont (dirValue (snd (reportDirError observer cb msg n st))) = folderCont (dirValue st)
   \<and> failedItemReads (dirValue (snd (reportDirError observer cb msg n st)))
       = failedItemReads (dirValue st)
   \<and> failedFolderReads (dirValue (snd (reportDirError observer cb msg n st)))
       = (if observer msg n = Response ON_ERROR_CONTINUE
          then (failedFolderReads (dirValue st))(ownFolder cb \<mapsto> msg)
          else failedFolderReads (dirValue st))"
  by (simp add: reportDirError_def reportError_def ownFolder_def
        split: ForegroundReply.splits HandleError.splits)

lemma effect_reportItemError:
  "folderCont (dirValue (snd (reportItemError observer cb msg n name st)))
     = folderCont (dirValue st)
   \<and> failedFolderReads (dirValue (snd (reportItemError observer cb msg n name st)))
       = failedFolderReads (dirValue st)
   \<and> failedItemReads (dirValue (snd (reportItemError observer cb msg n name st)))
       = (if fst (reportItemError observer cb msg n name st) = Inr ON_ERROR_CONTINUE
          then (failedItemReads (dirValue st))(parentRelPathPf cb @ name \<mapsto> msg)
          else failedItemReads (dirValue st))"
  by (simp add: reportItemError_def reportError_def
        split: ForegroundReply.splits HandleError.splits)

lemma ownFolder_child:
  "ownFolder \<lparr>cfg = c, parentRelPathPf = p @ [FILE_NAME_SEPARATOR], outputRef = ref,
              level = l\<rparr> = p"
  by (simp add: ownFolder_def beforeLast_snoc)

lemma ownFolder_child2:
  "ownFolder \<lparr>cfg = c, parentRelPathPf = p @ q @ [FILE_NAME_SEPARATOR], outputRef = ref,
              level = l\<rparr> = p @ q"
  using ownFolder_child [of c "p @ q" ref l] by simp

lemma pathPrefix_snoc: "pathPrefix (ref @ [n]) = pathPrefix ref @ n @ [FILE_NAME_SEPARATOR]"
  by (simp add: pathPrefix_def)

lemma scan_invariant: "scan ext key st cbs F D E \<Longrightarrow> scanInvariant key st cbs F D E"
proof (induction rule: scan.induct)
  case (baseCall now idx a t cb st)
  then have "dirValue st = emptyDirectoryValue"
    and "cb = \<lparr>cfg = \<lparr>baseFolderPath = folderPath key, filterRef = keyFilter key,
                       handleSymlinks = keyHandleSymlinks key, threadIdx = idx\<rparr>,
               parentRelPathPf = [], outputRef = [], level = 0\<rparr>"
    by (auto simp: BaseDirCallback_def dirValue_updateStatus)
  then show ?case
    by (simp add: scanInvariant_def recordedFiles_def recordedFolders_def
          emptyDirectoryValue_def ownFolder_def beforeLast_def pathPrefix_def)
next
  case (fileCall st cbs F D E cb interrupted now fi)
  from fileCall.IH fileCall.hyps(2)
  have wf: "parentRelPathPf cb = pathPrefix (outputRef cb)"
    and flt: "filterRef (cfg cb) = keyFilter key"
    by (auto simp: scanInvariant_def)
  show ?case
    by (rule scanInvariant_step [OF fileCall.IH entries_onFile [OF wf]])
       (auto simp: errors_onFile flt split: if_splits)
next
  case (linkCall st cbs F D E cb interrupted now si r st')
  from linkCall.IH linkCall.hyps(2)
  have wf: "parentRelPathPf cb = pathPrefix (outputRef cb)"
    and flt: "filterRef (cfg cb) = keyFilter key"
    by (auto simp: scanInvariant_def)
  from linkCall.hyps(3) have st': "st' = snd (onSymlink ext interrupted now cb si st)"
    by simp
  show ?case
    by (rule scanInvariant_step [OF linkCall.IH entries_onSymlink [OF wf linkCall.hyps(3)]])
       (auto simp: st' errors_onSymlink flt split: if_splits)
next
  case (folderCall st cbs F D E cb observer interrupted now fo r st')
  from folderCall.IH folderCall.hyps(2)
  have wf: "parentRelPathPf cb = pathPrefix (outputRef cb)"
    and flt: "filterRef (cfg cb) = keyFilter key"
    by (auto simp: scanInvariant_def)
  note err = errors_onFolder [OF folderCall.hyps(3)]
  have items: "dom (failedItemReads (dirValue st'))
                 \<subseteq> dom (failedItemReads (dirValue st))
                    \<union> (insert (parentRelPathPf cb @ folderName fo) D \<union> E)"
    using err by (auto simp: dom_def)
  have fresh: "\<forall>c\<in>(case r of Inr (Some child) \<Rightarrow> insert child cbs | _ \<Rightarrow> cbs). c \<notin> cbs \<longrightarrow>
                 parentRelPathPf c = pathPrefix (outputRef c)
                 \<and> filterRef (cfg c) = keyFilter key
                 \<and> ownFolder c \<in> insert (parentRelPathPf cb @ folderName fo) D"
  proof (cases r)
    case (Inl x)
    then show ?thesis by simp
  next
    case (Inr res)
    show ?thesis
    proof (cases res)
      case None
      with Inr show ?thesis by simp
    next
      case (Some child)
      with Inr folderCall.hyps(3) child_of_onFolder [of ext observer interrupted now cb fo st child st']
      have "child = \<lparr>cfg = cfg cb,
                  parentRelPathPf = (parentRelPathPf cb @ folderName fo) @ [FILE_NAME_SEPARATOR],
                  outputRef = outputRef cb @ [folderName fo], level = level cb + 1\<rparr>"
        by simp
      then have "parentRelPathPf child = pathPrefix (outputRef child)
                 \<and> filterRef (cfg child) = keyFilter key
                 \<and> ownFolder child = parentRelPathPf cb @ folderName fo"
        using wf flt by (simp add: pathPrefix_snoc ownFolder_child2)
      with Inr Some show ?thesis by auto
    qed
  qed
  show ?case
    by (rule scanInvariant_step
          [OF folderCall.IH entries_onFolder [OF wf folderCall.hyps(3)] _ _ items _ _ _ _ _ fresh])
       (auto simp: err flt split: if_splits sum.splits option.splits)
next
  case (dirErrorCall st cbs F D E cb observer msg n)
  have same: "set (treeEntries [] (folderCont (dirValue (snd (reportDirError observer cb msg n st)))))
                \<subseteq> set (treeEntries [] (folderCont (dirValue st))) \<union> {}"
    by (simp add: effect_reportDirError)
  show ?case
    by (rule scanInvariant_step [OF dirErrorCall.IH same])
       (use dirErrorCall.hyps(2) in \<open>auto simp: effect_reportDirError split: if_splits\<close>)
next
  case (itemErrorCall st cbs F D E cb observer msg n name r st')
  from itemErrorCall.hyps(3)
  have st': "st' = snd (reportItemError observer cb msg n name st)"
    and r: "r = fst (reportItemError observer cb msg n name st)" by simp_all
  have same: "set (treeEntries [] (folderCont (dirValue st')))
                \<subseteq> set (treeEntries [] (folderCont (dirValue st))) \<union> {}"
    by (simp add: st' effect_reportItemError)
  show ?case
    by (rule scanInvariant_step [OF itemErrorCall.IH same])
       (auto simp: st' r effect_reportItemError split: if_splits)
next
  case (otherThreads st cbs F D E a)
  then show ?case by (simp add: scanInvariant_def)
qed

subsection \<open>What the callbacks put into the tree\<close>

text \<open>
  C4, as stated, fails for directories: a folder whose relative path \<open>passDirFilter\<close>
  rejects is added all the same when the filter says that a child might match.
\<close>

theorem directory_added_without_passDirFilter_counterexample:
  "\<not> fst (passDirFilter rejectDirsButChildren ''sub'')
   \<and> onFolder exampleExt alwaysContinue False 0 (callbackWith rejectDirsButChildren [] [] 0)
        folderSub freshState
       = Some (Inr (Some (callbackWith rejectDirsButChildren ''sub/'' [''sub''] 1)),
               freshState\<lparr>dirValue := emptyDirectoryValue
                  \<lparr>folderCont := [(''sub'', SubFolder False [])]\<rparr>\<rparr>)"
  by (simp add: onFolder_def callbackWith_def rejectDirsButChildren_def folderSub_def
        freshState_def updateStatus_def mayReportCurrentFile_def dist_def wrap64_def
        newAsyncCallback_def modifyOutput_def addSubFolder_def emptyDirectoryValue_def
        FILE_NAME_SEPARATOR_def)

text \<open>The traversal of /dev1/x under the filter \<open>hideSecret\<close>, call by call.\<close>

lemma filteredScan_trace:
  "scan exampleExt keyZ filteredScan
     {callbackWith hideSecret [] [] 0, callbackWith hideSecret ''sub/'' [''sub''] 1}
     {''a.txt'', ''secret.key'', ''sub/l''} {''sub'', ''private''} {}
   \<and> folderCont (dirValue filteredScan)
       = [(''a.txt'', FileRecord 1 10 ''id1'' False),
          (''sub'', SubFolder False [(''l'', SymlinkRecord 7)])]"
proof -
  let ?cb = "callbackWith hideSecret [] [] 0"
  let ?child = "callbackWith hideSecret ''sub/'' [''sub''] 1"
  let ?st = "\<lambda>tree n. \<lparr>dirValue = \<lparr>folderCont = tree, failedFolderReads = Map.empty,
                                      failedItemReads = Map.empty\<rparr>,
                          acb = \<lparr>errorRequest = None, errorResponse = None,
                                 threadsToFinish = 1, currentFile = [], activeThreadIdxs = [],
                                 notifyingThreadIdx = 0, cbInterval = 50, itemsScanned = n\<rparr>,
                          lastReportTime = 0\<rparr>"
  let ?a = "(''a.txt'', FileRecord 1 10 ''id1'' False)"
  have fresh: "freshState = ?st [] 0"
    by (simp add: freshState_def emptyDirectoryValue_def newAsyncCallback_def)
  have b: "BaseDirCallback exampleExt 0 keyZ 0
             \<lparr>dirValue = emptyDirectoryValue, acb = newAsyncCallback 1 50, lastReportTime = 0\<rparr>
           = (?cb, ?st [] 0)"
    by (simp add: BaseDirCallback_def callbackWith_def keyZ_def exampleExt_def
          updateStatus_def mayReportCurrentFile_def dist_def wrap64_def newAsyncCallback_def
          emptyDirectoryValue_def)
  have f1: "onFile exampleExt False 0 ?cb fileA (?st [] 0) = (Inr (), ?st [?a] 1)"
    by (simp add: onFile_def Let_def callbackWith_def hideSecret_def fileA_def
          endsWith_def SYNC_DB_FILE_ENDING_def LOCK_FILE_ENDING_def updateStatus_def
          mayReportCurrentFile_def dist_def wrap64_def modifyOutput_def
          addSubFile_def countItem_def incItemsScanned_def)
  have f2: "onFile exampleExt False 0 ?cb fileSecret (?st [?a] 1) = (Inr (), ?st [?a] 1)"
    by (simp add: onFile_def Let_def callbackWith_def hideSecret_def fileSecret_def
          endsWith_def SYNC_DB_FILE_ENDING_def LOCK_FILE_ENDING_def updateStatus_def
          mayReportCurrentFile_def dist_def wrap64_def)
  have d1: "onFolder exampleExt alwaysContinue False 0 ?cb folderSub (?st [?a] 1)
              = Some (Inr (Some ?child), ?st [?a, (''sub'', SubFolder False [])] 1)"
    by (simp add: onFolder_def Let_def callbackWith_def hideSecret_def folderSub_def
          updateStatus_def mayReportCurrentFile_def dist_def wrap64_def modifyOutput_def
          addSubFolder_def FILE_NAME_SEPARATOR_def)
  have d2: "onFolder exampleExt alwaysContinue False 0 ?cb folderPrivate
              (?st [?a, (''sub'', SubFolder False [])] 1)
              = Some (Inr None, ?st [?a, (''sub'', SubFolder False [])] 1)"
    by (simp add: onFolder_def Let_def callbackWith_def hideSecret_def folderPrivate_def
          updateStatus_def mayReportCurrentFile_def dist_def wrap64_def)
  have l: "onSymlink exampleExt False 0 ?child linkL (?st [?a, (''sub'', SubFolder False [])] 1)
             = (Inr LINK_SKIP,
                ?st [?a, (''sub'', SubFolder False [(''l'', SymlinkRecord 7)])] 2)"
    by (simp add: onSymlink_def Let_def callbackWith_def hideSecret_def linkL_def
          updateStatus_def mayReportCurrentFile_def dist_def wrap64_def modifyOutput_def
          addSubLink_def countItem_def incItemsScanned_def)
  have eq: "filteredScan = ?st [?a, (''sub'', SubFolder False [(''l'', SymlinkRecord 7)])] 2"
    by (simp add: filteredScan_def Let_def fresh f1 f2 d1 d2 l)
  have names: "parentRelPathPf ?cb = []" "parentRelPathPf ?child = ''sub/''"
    "itemName fileA = ''a.txt''" "itemName fileSecret = ''secret.key''"
    "folderName folderSub = ''sub''" "folderName folderPrivate = ''private''"
    "linkName linkL = ''l''"
    by (simp_all add: callbackWith_def fileA_def fileSecret_def folderSub_def
          folderPrivate_def linkL_def)
  note c0 = scan.baseCall [OF b]
  have c1: "scan exampleExt keyZ (?st [?a] 1) {?cb} {''a.txt''} {} {}"
    using scan.fileCall [OF c0, where cb = ?cb and interrupted = False and now = 0
            and fi = fileA]
    by (simp add: f1 names)
  have c2: "scan exampleExt keyZ (?st [?a] 1) {?cb} {''a.txt'', ''secret.key''} {} {}"
    using scan.fileCall [OF c1, where cb = ?cb and interrupted = False and now = 0
            and fi = fileSecret]
    by (simp add: f2 names insert_commute)
  have c3: "scan exampleExt keyZ (?st [?a, (''sub'', SubFolder False [])] 1) {?cb, ?child}
              {''a.txt'', ''secret.key''} {''sub''} {}"
    using scan.folderCall [OF c2 _ d1] by (simp add: names insert_commute)
  have c4: "scan exampleExt keyZ (?st [?a, (''sub'', SubFolder False [])] 1) {?cb, ?child}
              {''a.txt'', ''secret.key''} {''sub'', ''private''} {}"
    using scan.folderCall [OF c3 _ d2] by (simp add: names insert_commute)
  have c5: "scan exampleExt keyZ
              (?st [?a, (''sub'', SubFolder False [(''l'', SymlinkRecord 7)])] 2) {?cb, ?child}
              {''a.txt'', ''secret.key'', ''sub/l''} {''sub'', ''private''} {}"
    using scan.linkCall [OF c4 _ l] by (simp add: names insert_commute)
  show ?thesis unfolding eq using c5 by simp
qed

lemma recorded_filteredScan:
  "recordedFiles (folderCont (dirValue filteredScan)) = [''a.txt'', ''sub/l'']
   \<and> recordedFolders (folderCont (dirValue filteredScan)) = [''sub'']"
  by (simp add: filteredScan_trace recordedFiles_def recordedFolders_def
        FILE_NAME_SEPARATOR_def)

text \<open>
  C4, amended. What a traversal callback places in a \<open>FolderContainer\<close> is the entry it
  was called with, under that entry's name in the folder the callback works on, and the
  filter has admitted it: \<open>onFile\<close> and \<open>onSymlink\<close> either leave the tree as it is or
  add the record of the visited entry, and they add it only when \<open>passFileFilter\<close> accepts
  the entry's relative path; \<open>onFolder\<close> either leaves the tree as it is or adds a node
  for the visited folder, and it adds it only when \<open>passDirFilter\<close> accepts the folder's
  relative path or says that a child item might match. So in the tree of every
  \<open>DirectoryValue\<close> of a traversal, every file or symlink record stands under a relative
  path that was reported through \<open>onFile\<close> or \<open>onSymlink\<close> and that \<open>passFileFilter\<close>
  accepts, and every folder node under a relative path that was reported through
  \<open>onFolder\<close> and that \<open>passDirFilter\<close> accepts or for which a child might match.
\<close>

theorem callbacks_add_only_admitted_items:
  "folderCont (dirValue (snd (onFile ext interrupted now cb fi s)))
     = (if \<not> interrupted
           \<and> \<not> endsWith (itemName fi) SYNC_DB_FILE_ENDING
           \<and> \<not> endsWith (itemName fi) LOCK_FILE_ENDING
           \<and> passFileFilter (filterRef (cfg cb)) (parentRelPathPf cb @ itemName fi)
        then modifyAt (outputRef cb)
               (addSubFile (itemName fi)
                  (FileRecord (modTime fi) (fileSize fi) (fileId fi) (symlinkInfo fi \<noteq> None)))
               (folderCont (dirValue s))
        else folderCont (dirValue s))
   \<and> folderCont (dirValue (snd (onSymlink ext interrupted now cb si s)))
     = (if \<not> interrupted \<and> handleSymlinks (cfg cb) = DIRECT
           \<and> passFileFilter (filterRef (cfg cb)) (parentRelPathPf cb @ linkName si)
        then modifyAt (outputRef cb)
               (addSubLink (linkName si) (SymlinkRecord (linkModTime si)))
               (folderCont (dirValue s))
        else folderCont (dirValue s))
   \<and> (\<forall>r st'. onFolder ext observer interrupted now cb fo s = Some (r, st') \<longrightarrow>
         folderCont (dirValue st')
           = (if \<not> interrupted
                 \<and> (fst (passDirFilter (filterRef (cfg cb)) (parentRelPathPf cb @ folderName fo))
                    \<or> snd (passDirFilter (filterRef (cfg cb))
                             (parentRelPathPf cb @ folderName fo)))
              then modifyAt (outputRef cb)
                     (addSubFolder (folderName fo) (folderSymlinkInfo fo \<noteq> None))
                     (folderCont (dirValue s))
              else folderCont (dirValue s)))
   \<and> (scan ext key st cbs F D E \<longrightarrow>
         (\<forall>p\<in>set (recordedFiles (folderCont (dirValue st))).
             p \<in> F \<and> passFileFilter (keyFilter key) p)
       \<and> (\<forall>p\<in>set (recordedFolders (folderCont (dirValue st))).
             p \<in> D \<and> (fst (passDirFilter (keyFilter key) p)
                        \<or> snd (passDirFilter (keyFilter key) p))))"
proof (intro conjI allI impI)
  show "folderCont (dirValue (snd (onFile ext interrupted now cb fi s)))
     = (if \<not> interrupted
           \<and> \<not> endsWith (itemName fi) SYNC_DB_FILE_ENDING
           \<and> \<not> endsWith (itemName fi) LOCK_FILE_ENDING
           \<and> passFileFilter (filterRef (cfg cb)) (parentRelPathPf cb @ itemName fi)
        then modifyAt (outputRef cb)
               (addSubFile (itemName fi)
                  (FileRecord (modTime fi) (fileSize fi) (fileId fi) (symlinkInfo fi \<noteq> None)))
               (folderCont (dirValue s))
        else folderCont (dirValue s))"
    by (rule folderCont_onFile)
next
  show "folderCont (dirValue (snd (onSymlink ext interrupted now cb si s)))
     = (if \<not> interrupted \<and> handleSymlinks (cfg cb) = DIRECT
           \<and> passFileFilter (filterRef (cfg cb)) (parentRelPathPf cb @ linkName si)
        then modifyAt (outputRef cb)
               (addSubLink (linkName si) (SymlinkRecord (linkModTime si)))
               (folderCont (dirValue s))
        else folderCont (dirValue s))"
    by (rule folderCont_onSymlink)
next
  fix r st'
  assume "onFolder ext observer interrupted now cb fo s = Some (r, st')"
  then show "folderCont (dirValue st')
           = (if \<not> interrupted
                 \<and> (fst (passDirFilter (filterRef (cfg cb)) (parentRelPathPf cb @ folderName fo))
                    \<or> snd (passDirFilter (filterRef (cfg cb))
                             (parentRelPathPf cb @ folderName fo)))
              then modifyAt (outputRef cb)
                     (addSubFolder (folderName fo) (folderSymlinkInfo fo \<noteq> None))
                     (folderCont (dirValue s))
              else folderCont (dirValue s))"
    by (rule folderCont_onFolder)
next
  assume "scan ext key st cbs F D E"
  then have inv: "scanInvariant key st cbs F D E"
    by (rule scan_invariant)
  from inv show "\<forall>p\<in>set (recordedFiles (folderCont (dirValue st))).
                    p \<in> F \<and> passFileFilter (keyFilter key) p"
    by (auto simp: scanInvariant_def)
  from inv show "\<forall>p\<in>set (recordedFolders (folderCont (dirValue st))).
                    p \<in> D \<and> (fst (passDirFilter (keyFilter key) p)
                               \<or> snd (passDirFilter (keyFilter key) p))"
    by (auto simp: scanInvariant_def)
qed

theorem callbacks_add_only_admitted_items_witness:
  "scan exampleExt keyZ filteredScan
     {callbackWith hideSecret [] [] 0, callbackWith hideSecret ''sub/'' [''sub''] 1}
     {''a.txt'', ''secret.key'', ''sub/l''} {''sub'', ''private''} {}
   \<and> folderCont (dirValue filteredScan)
       = [(''a.txt'', FileRecord 1 10 ''id1'' False),
          (''sub'', SubFolder False [(''l'', SymlinkRecord 7)])]
   \<and> passFileFilter (keyFilter keyZ) ''a.txt''
   \<and> passFileFilter (keyFilter keyZ) ''sub/l''
   \<and> \<not> passFileFilter (keyFilter keyZ) ''secret.key''
   \<and> passDirFilter (keyFilter keyZ) ''sub'' = (False, True)
   \<and> passDirFilter (keyFilter keyZ) ''private'' = (False, False)
   \<and> onFolder exampleExt alwaysContinue False 0 (callbackWith hideSecret [] [] 0) folderSub
        freshState \<noteq> None
   \<and> folderCont (dirValue (snd (the (onFolder exampleExt alwaysContinue False 0
        (callbackWith hideSecret [] [] 0) folderSub freshState))))
       = [(''sub'', SubFolder False [])]
   \<and> folderCont (dirValue (snd (onFile exampleExt False 0 (callbackWith hideSecret [] [] 0)
        fileSecret freshState))) = []"
proof -
  let ?cb = "callbackWith hideSecret [] [] 0"
  note t = callbacks_add_only_admitted_items
             [where ext = exampleExt and interrupted = False and now = 0 and cb = ?cb
                and fi = fileSecret and si = linkL and fo = folderSub and s = freshState
                and observer = alwaysContinue and key = keyZ and st = filteredScan
                and cbs = "{?cb, callbackWith hideSecret ''sub/'' [''sub''] 1}"
                and F = "{''a.txt'', ''secret.key'', ''sub/l''}"
                and D = "{''sub'', ''private''}" and E = "{}"]
  note onFileEq = t [THEN conjunct1]
  note onFolderEq = t [THEN conjunct2, THEN conjunct2, THEN conjunct1, rule_format]
  note inTree = t [THEN conjunct2, THEN conjunct2, THEN conjunct2, THEN mp,
                   OF filteredScan_trace [THEN conjunct1]]
  have some: "onFolder exampleExt alwaysContinue False 0 ?cb folderSub freshState \<noteq> None"
    by (simp add: onFolder_def Let_def callbackWith_def hideSecret_def folderSub_def)
  then obtain r st' where
    r: "onFolder exampleExt alwaysContinue False 0 ?cb folderSub freshState = Some (r, st')"
    by auto
  have facts: "parentRelPathPf ?cb = []" "outputRef ?cb = []"
    "passFileFilter (filterRef (cfg ?cb)) ''secret.key'' = False"
    "passDirFilter (filterRef (cfg ?cb)) ''sub'' = (False, True)"
    "folderName folderSub = ''sub''" "folderSymlinkInfo folderSub = None"
    "itemName fileSecret = ''secret.key''" "folderCont (dirValue freshState) = []"
    by (simp_all add: callbackWith_def hideSecret_def folderSub_def fileSecret_def
          freshState_def emptyDirectoryValue_def)
  from onFolderEq [OF r] have node: "folderCont (dirValue st') = [(''sub'', SubFolder False [])]"
    by (simp add: facts addSubFolder_def)
  from onFileEq have hidden: "folderCont (dirValue (snd (onFile exampleExt False 0 ?cb
                                fileSecret freshState))) = []"
    by (simp add: facts)
  from inTree have admitted: "passFileFilter (keyFilter keyZ) ''a.txt''"
    "passFileFilter (keyFilter keyZ) ''sub/l''"
    "fst (passDirFilter (keyFilter keyZ) ''sub'') \<or> snd (passDirFilter (keyFilter keyZ) ''sub'')"
    by (simp_all add: recorded_filteredScan)
  have rejected: "\<not> passFileFilter (keyFilter keyZ) ''secret.key''"
    "passDirFilter (keyFilter keyZ) ''sub'' = (False, True)"
    "passDirFilter (keyFilter keyZ) ''private'' = (False, False)"
    by (simp_all add: keyZ_def hideSecret_def)
  from r node have tree: "folderCont (dirValue (snd (the (onFolder exampleExt alwaysContinue
        False 0 ?cb folderSub freshState)))) = [(''sub'', SubFolder False [])]"
    by simp
  from filteredScan_trace admitted(1,2) rejected some tree hidden show ?thesis
    by (intro conjI) simp_all
qed

subsection \<open>Tree entries and error entries\<close>

text \<open>
  C3, as stated, fails: after the folder sub was recorded in the tree and its enumeration
  failed with the decision CONTINUE, the relative path sub is an entry of the tree and a
  key of \<open>failedFolderReads\<close> of the same \<open>DirectoryValue\<close>.
\<close>

theorem folder_node_and_error_entry_counterexample:
  "''sub'' \<in> set (recordedPaths [] (folderCont (dirValue subFolderListingFailed)))
   \<and> failedFolderReads (dirValue subFolderListingFailed) ''sub'' = Some ''denied''"
  by (simp add: subFolderListingFailed_def subFolderVisited_def onFolder_def
        BaseDirCallback_def exampleExt_def keyX_def passAll_def folderSub_def freshState_def
        updateStatus_def mayReportCurrentFile_def dist_def wrap64_def newAsyncCallback_def
        modifyOutput_def addSubFolder_def countItem_def incItemsScanned_def
        emptyDirectoryValue_def reportDirError_def reportError_def alwaysContinue_def
        beforeLast_def FILE_NAME_SEPARATOR_def recordedPaths_def)

text \<open>The traversal of /dev1/x that fails twice, call by call.\<close>

lemma failedScan_trace:
  "scan exampleExt keyX failedScan
     {callbackWith passAll [] [] 0, callbackWith passAll ''sub/'' [''sub''] 1}
     {''a.txt''} {''sub''} {''b.txt''}
   \<and> dirValue failedScan
       = \<lparr>folderCont = [(''a.txt'', FileRecord 1 10 ''id1'' False),
                         (''sub'', SubFolder False [])],
          failedFolderReads = [''sub'' \<mapsto> ''denied''],
          failedItemReads = [''b.txt'' \<mapsto> ''unreadable'']\<rparr>"
proof -
  let ?cb = "callbackWith passAll [] [] 0"
  let ?child = "callbackWith passAll ''sub/'' [''sub''] 1"
  let ?st = "\<lambda>tree dirs items n.
               \<lparr>dirValue = \<lparr>folderCont = tree, failedFolderReads = dirs,
                             failedItemReads = items\<rparr>,
                acb = \<lparr>errorRequest = None, errorResponse = None,
                       threadsToFinish = 1, currentFile = [], activeThreadIdxs = [],
                       notifyingThreadIdx = 0, cbInterval = 50, itemsScanned = n\<rparr>,
                lastReportTime = 0\<rparr>"
  let ?tree = "[(''a.txt'', FileRecord 1 10 ''id1'' False), (''sub'', SubFolder False [])]"
  have fresh: "freshState = ?st [] Map.empty Map.empty 0"
    by (simp add: freshState_def emptyDirectoryValue_def newAsyncCallback_def)
  have b: "BaseDirCallback exampleExt 0 keyX 0
             \<lparr>dirValue = emptyDirectoryValue, acb = newAsyncCallback 1 50, lastReportTime = 0\<rparr>
           = (?cb, ?st [] Map.empty Map.empty 0)"
    by (simp add: BaseDirCallback_def callbackWith_def keyX_def exampleExt_def
          updateStatus_def mayReportCurrentFile_def dist_def wrap64_def newAsyncCallback_def
          emptyDirectoryValue_def)
  have f: "onFile exampleExt False 0 ?cb fileA (?st [] Map.empty Map.empty 0)
             = (Inr (), ?st [(''a.txt'', FileRecord 1 10 ''id1'' False)] Map.empty Map.empty 1)"
    by (simp add: onFile_def Let_def callbackWith_def passAll_def fileA_def
          endsWith_def SYNC_DB_FILE_ENDING_def LOCK_FILE_ENDING_def updateStatus_def
          mayReportCurrentFile_def dist_def wrap64_def modifyOutput_def
          addSubFile_def countItem_def incItemsScanned_def)
  have d: "onFolder exampleExt alwaysContinue False 0 ?cb folderSub
             (?st [(''a.txt'', FileRecord 1 10 ''id1'' False)] Map.empty Map.empty 1)
             = Some (Inr (Some ?child), ?st ?tree Map.empty Map.empty 2)"
    by (simp add: onFolder_def Let_def callbackWith_def passAll_def folderSub_def
          updateStatus_def mayReportCurrentFile_def dist_def wrap64_def modifyOutput_def
          addSubFolder_def countItem_def incItemsScanned_def FILE_NAME_SEPARATOR_def)
  have e1: "reportDirError alwaysContinue ?child ''denied'' 0 (?st ?tree Map.empty Map.empty 2)
              = (Inr ON_ERROR_CONTINUE, ?st ?tree [''sub'' \<mapsto> ''denied''] Map.empty 2)"
    by (simp add: reportDirError_def reportError_def alwaysContinue_def callbackWith_def
          beforeLast_def FILE_NAME_SEPARATOR_def)
  have e2: "reportItemError alwaysContinue ?cb ''unreadable'' 0 ''b.txt''
              (?st ?tree [''sub'' \<mapsto> ''denied''] Map.empty 2)
              = (Inr ON_ERROR_CONTINUE,
                 ?st ?tree [''sub'' \<mapsto> ''denied''] [''b.txt'' \<mapsto> ''unreadable''] 2)"
    by (simp add: reportItemError_def reportError_def alwaysContinue_def callbackWith_def)
  have eq: "failedScan
              = ?st ?tree [''sub'' \<mapsto> ''denied''] [''b.txt'' \<mapsto> ''unreadable''] 2"
    by (simp add: failedScan_def Let_def fresh f d e1 e2)
  have names: "parentRelPathPf ?cb = []" "itemName fileA = ''a.txt''"
    "folderName folderSub = ''sub''"
    by (simp_all add: callbackWith_def fileA_def folderSub_def)
  note c0 = scan.baseCall [OF b]
  have c1: "scan exampleExt keyX
              (?st [(''a.txt'', FileRecord 1 10 ''id1'' False)] Map.empty Map.empty 1)
              {?cb} {''a.txt''} {} {}"
    using scan.fileCall [OF c0, where cb = ?cb and interrupted = False and now = 0
            and fi = fileA]
    by (simp add: f names)
  have c2: "scan exampleExt keyX (?st ?tree Map.empty Map.empty 2) {?cb, ?child}
              {''a.txt''} {''sub''} {}"
    using scan.folderCall [OF c1 _ d] by (simp add: names insert_commute)
  have c3: "scan exampleExt keyX (?st ?tree [''sub'' \<mapsto> ''denied''] Map.empty 2)
              {?cb, ?child} {''a.txt''} {''sub''} {}"
    using scan.dirErrorCall [OF c2, where cb = ?child and observer = alwaysContinue
            and msg = "''denied''" and n = 0]
    by (simp add: e1)
  have c4: "scan exampleExt keyX
              (?st ?tree [''sub'' \<mapsto> ''denied''] [''b.txt'' \<mapsto> ''unreadable''] 2)
              {?cb, ?child} {''a.txt''} {''sub''} {''b.txt''}"
    using scan.itemErrorCall [OF c3 _ e2] by (simp add: names)
  show ?thesis unfolding eq using c4 by simp
qed

lemma recorded_failedScan:
  "recordedFiles (folderCont (dirValue failedScan)) = [''a.txt'']
   \<and> recordedFolders (folderCont (dirValue failedScan)) = [''sub'']"
  by (simp add: failedScan_trace recordedFiles_def recordedFolders_def)

text \<open>
  C3, amended. In every \<open>DirectoryValue\<close> of a traversal, the file and symlink records
  of the tree stand under relative paths that were reported through \<open>onFile\<close> or
  \<open>onSymlink\<close>, the folder nodes under relative paths that were reported through
  \<open>onFolder\<close>; the keys of \<open>failedItemReads\<close> were reported through \<open>onFolder\<close>, or
  through \<open>reportItemError\<close> with the decision CONTINUE; the keys of \<open>failedFolderReads\<close>
  are own folders of the callbacks, each one the base folder or a folder reported through
  \<open>onFolder\<close>. So no relative path recorded as a file or symlink is a key of
  \<open>failedFolderReads\<close> or \<open>failedItemReads\<close>, provided that the traversal reports no
  relative path both as a file or symlink and as a folder or failed item, and no file or
  symlink under the empty path. A folder node can share its relative path with an error
  entry: \<open>reportDirError\<close> with the decision CONTINUE records the message in
  \<open>failedFolderReads\<close> under the own folder of its callback, the relative prefix without
  the separator at its end, and changes nothing else of the \<open>DirectoryValue\<close>;
  \<open>reportItemError\<close> with the decision CONTINUE records it in \<open>failedItemReads\<close> under
  the relative path of the item and changes nothing else; \<open>onFile\<close> and \<open>onSymlink\<close>
  write neither map; \<open>onFolder\<close> never writes \<open>failedFolderReads\<close>, writes
  \<open>failedItemReads\<close> only at a level above 100, and then only under the relative path
  of the folder it was called with.
\<close>

theorem records_and_errors_written_apart:
  "(scan ext key st cbs F D E \<longrightarrow>
       set (recordedFiles (folderCont (dirValue st))) \<subseteq> F
     \<and> set (recordedFolders (folderCont (dirValue st))) \<subseteq> D
     \<and> dom (failedItemReads (dirValue st)) \<subseteq> D \<union> E
     \<and> dom (failedFolderReads (dirValue st)) \<subseteq> ownFolder ` cbs
     \<and> ownFolder ` cbs \<subseteq> insert [] D
     \<and> (F \<inter> insert [] (D \<union> E) = {} \<longrightarrow>
          (\<forall>p\<in>set (recordedFiles (folderCont (dirValue st))).
              failedFolderReads (dirValue st) p = None
            \<and> failedItemReads (dirValue st) p = None)))
   \<and> dirValue (snd (reportDirError observer cb msg n s))
       = (if observer msg n = Response ON_ERROR_CONTINUE
          then (dirValue s)\<lparr>failedFolderReads := (failedFolderReads (dirValue s))
                 (beforeLast (parentRelPathPf cb) FILE_NAME_SEPARATOR IF_MISSING_RETURN_NONE
                    \<mapsto> msg)\<rparr>
          else dirValue s)
   \<and> dirValue (snd (reportItemError observer cb msg n name s))
       = (if observer msg n = Response ON_ERROR_CONTINUE
          then (dirValue s)\<lparr>failedItemReads := (failedItemReads (dirValue s))
                 (parentRelPathPf cb @ name \<mapsto> msg)\<rparr>
          else dirValue s)
   \<and> failedFolderReads (dirValue (snd (onFile ext interrupted now cb fi s)))
       = failedFolderReads (dirValue s)
   \<and> failedItemReads (dirValue (snd (onFile ext interrupted now cb fi s)))
       = failedItemReads (dirValue s)
   \<and> failedFolderReads (dirValue (snd (onSymlink ext interrupted now cb si s)))
       = failedFolderReads (dirValue s)
   \<and> failedItemReads (dirValue (snd (onSymlink ext interrupted now cb si s)))
       = failedItemReads (dirValue s)
   \<and> (\<forall>r st'. onFolder ext observer interrupted now cb fo s = Some (r, st') \<longrightarrow>
          failedFolderReads (dirValue st') = failedFolderReads (dirValue s)
        \<and> (\<forall>k. k \<noteq> parentRelPathPf cb @ folderName fo \<longrightarrow>
              failedItemReads (dirValue st') k = failedItemReads (dirValue s) k)
        \<and> (level cb \<le> 100 \<longrightarrow>
              failedItemReads (dirValue st') = failedItemReads (dirValue s)))"
proof -
  have global: "set (recordedFiles (folderCont (dirValue st))) \<subseteq> F
     \<and> set (recordedFolders (folderCont (dirValue st))) \<subseteq> D
     \<and> dom (failedItemReads (dirValue st)) \<subseteq> D \<union> E
     \<and> dom (failedFolderReads (dirValue st)) \<subseteq> ownFolder ` cbs
     \<and> ownFolder ` cbs \<subseteq> insert [] D
     \<and> (F \<inter> insert [] (D \<union> E) = {} \<longrightarrow>
          (\<forall>p\<in>set (recordedFiles (folderCont (dirValue st))).
              failedFolderReads (dirValue st) p = None
            \<and> failedItemReads (dirValue st) p = None))"
    if "scan ext key st cbs F D E"
  proof -
    from that have inv: "scanInvariant key st cbs F D E"
      by (rule scan_invariant)
    then have a: "set (recordedFiles (folderCont (dirValue st))) \<subseteq> F"
      and b: "set (recordedFolders (folderCont (dirValue st))) \<subseteq> D"
      and c: "dom (failedItemReads (dirValue st)) \<subseteq> D \<union> E"
      and d: "dom (failedFolderReads (dirValue st)) \<subseteq> ownFolder ` cbs"
      and e: "ownFolder ` cbs \<subseteq> insert [] D"
      by (simp_all add: scanInvariant_def)
    have "failedFolderReads (dirValue st) p = None \<and> failedItemReads (dirValue st) p = None"
      if apart: "F \<inter> insert [] (D \<union> E) = {}"
        and p: "p \<in> set (recordedFiles (folderCont (dirValue st)))" for p
    proof -
      from p a have "p \<in> F" by blast
      with apart have "p \<notin> insert [] D" "p \<notin> D \<union> E" by blast+
      with c d e have "p \<notin> dom (failedFolderReads (dirValue st))"
        "p \<notin> dom (failedItemReads (dirValue st))" by blast+
      then show ?thesis by (simp add: dom_def)
    qed
    with a b c d e show ?thesis by blast
  qed
  have dirErr: "dirValue (snd (reportDirError observer cb msg n s))
       = (if observer msg n = Response ON_ERROR_CONTINUE
          then (dirValue s)\<lparr>failedFolderReads := (failedFolderReads (dirValue s))
                 (beforeLast (parentRelPathPf cb) FILE_NAME_SEPARATOR IF_MISSING_RETURN_NONE
                    \<mapsto> msg)\<rparr>
          else dirValue s)"
    by (simp add: reportDirError_def reportError_def
          split: ForegroundReply.splits HandleError.splits)
  have itemErr: "dirValue (snd (reportItemError observer cb msg n name s))
       = (if observer msg n = Response ON_ERROR_CONTINUE
          then (dirValue s)\<lparr>failedItemReads := (failedItemReads (dirValue s))
                 (parentRelPathPf cb @ name \<mapsto> msg)\<rparr>
          else dirValue s)"
    by (simp add: reportItemError_def reportError_def
          split: ForegroundReply.splits HandleError.splits)
  have folderErr: "failedFolderReads (dirValue st') = failedFolderReads (dirValue s)
        \<and> (\<forall>k. k \<noteq> parentRelPathPf cb @ folderName fo \<longrightarrow>
              failedItemReads (dirValue st') k = failedItemReads (dirValue s) k)
        \<and> (level cb \<le> 100 \<longrightarrow>
              failedItemReads (dirValue st') = failedItemReads (dirValue s))"
    if "onFolder ext observer interrupted now cb fo s = Some (r, st')" for r st'
    using that by (rule errors_onFolder)
  have g: "scan ext key st cbs F D E \<longrightarrow>
       set (recordedFiles (folderCont (dirValue st))) \<subseteq> F
     \<and> set (recordedFolders (folderCont (dirValue st))) \<subseteq> D
     \<and> dom (failedItemReads (dirValue st)) \<subseteq> D \<union> E
     \<and> dom (failedFolderReads (dirValue st)) \<subseteq> ownFolder ` cbs
     \<and> ownFolder ` cbs \<subseteq> insert [] D
     \<and> (F \<inter> insert [] (D \<union> E) = {} \<longrightarrow>
          (\<forall>p\<in>set (recordedFiles (folderCont (dirValue st))).
              failedFolderReads (dirValue st) p = None
            \<and> failedItemReads (dirValue st) p = None))"
    by (rule impI) (rule global)
  have fo: "\<forall>r st'. onFolder ext observer interrupted now cb fo s = Some (r, st') \<longrightarrow>
          failedFolderReads (dirValue st') = failedFolderReads (dirValue s)
        \<and> (\<forall>k. k \<noteq> parentRelPathPf cb @ folderName fo \<longrightarrow>
              failedItemReads (dirValue st') k = failedItemReads (dirValue s) k)
        \<and> (level cb \<le> 100 \<longrightarrow>
              failedItemReads (dirValue st') = failedItemReads (dirValue s))"
    by (intro allI impI) (rule folderErr)
  note fileErr = errors_onFile [of ext interrupted now cb fi s]
  note linkErr = errors_onSymlink [of ext interrupted now cb si s]
  show ?thesis
    apply (rule conjI [OF g])
    apply (rule conjI [OF dirErr])
    apply (rule conjI [OF itemErr])
    apply (rule conjI [OF fileErr [THEN conjunct1]])
    apply (rule conjI [OF fileErr [THEN conjunct2]])
    apply (rule conjI [OF linkErr [THEN conjunct1]])
    apply (rule conjI [OF linkErr [THEN conjunct2]])
    apply (rule fo)
    done
qed

theorem records_and_errors_written_apart_witness:
  "scan exampleExt keyX failedScan
     {callbackWith passAll [] [] 0, callbackWith passAll ''sub/'' [''sub''] 1}
     {''a.txt''} {''sub''} {''b.txt''}
   \<and> {''a.txt''} \<inter> insert [] ({''sub''} \<union> {''b.txt''}) = {}
   \<and> dirValue failedScan
       = \<lparr>folderCont = [(''a.txt'', FileRecord 1 10 ''id1'' False),
                         (''sub'', SubFolder False [])],
          failedFolderReads = [''sub'' \<mapsto> ''denied''],
          failedItemReads = [''b.txt'' \<mapsto> ''unreadable'']\<rparr>
   \<and> recordedFiles (folderCont (dirValue failedScan)) = [''a.txt'']
   \<and> failedFolderReads (dirValue failedScan) ''a.txt'' = None
   \<and> failedItemReads (dirValue failedScan) ''a.txt'' = None
   \<and> recordedFolders (folderCont (dirValue failedScan)) = [''sub'']
   \<and> failedFolderReads (dirValue failedScan) ''sub'' = Some ''denied''
   \<and> ownFolder (callbackWith passAll ''sub/'' [''sub''] 1) = ''sub''
   \<and> onFolder exampleExt alwaysContinue False 0 (callbackWith passAll ''deep/'' [''deep''] 101)
        folderSub deepState \<noteq> None
   \<and> failedFolderReads (dirValue (snd (the (onFolder exampleExt alwaysContinue False 0
        (callbackWith passAll ''deep/'' [''deep''] 101) folderSub deepState)))) = Map.empty
   \<and> failedItemReads (dirValue (snd (the (onFolder exampleExt alwaysContinue False 0
        (callbackWith passAll ''deep/'' [''deep''] 101) folderSub deepState)))) ''other'' = None"
proof -
  let ?deep = "callbackWith passAll ''deep/'' [''deep''] 101"
  note t = records_and_errors_written_apart
             [where ext = exampleExt and key = keyX and st = failedScan
                and cbs = "{callbackWith passAll [] [] 0,
                            callbackWith passAll ''sub/'' [''sub''] 1}"
                and F = "{''a.txt''}" and D = "{''sub''}" and E = "{''b.txt''}"
                and observer = alwaysContinue and cb = ?deep and s = deepState
                and interrupted = False and now = 0 and fo = folderSub]
  note inScan = t [THEN conjunct1, THEN mp, OF failedScan_trace [THEN conjunct1]]
  note atFolder = t [THEN conjunct2, THEN conjunct2, THEN conjunct2, THEN conjunct2,
                     THEN conjunct2, THEN conjunct2, THEN conjunct2, rule_format]
  have apart: "{''a.txt''} \<inter> insert [] ({''sub''} \<union> {''b.txt''}) = ({} :: Zstring set)"
    by simp
  from inScan apart
  have "\<forall>p\<in>set (recordedFiles (folderCont (dirValue failedScan))).
           failedFolderReads (dirValue failedScan) p = None
         \<and> failedItemReads (dirValue failedScan) p = None"
    by blast
  then have noError: "failedFolderReads (dirValue failedScan) ''a.txt'' = None"
    "failedItemReads (dirValue failedScan) ''a.txt'' = None"
    by (simp_all add: recorded_failedScan)
  have node: "failedFolderReads (dirValue failedScan) ''sub'' = Some ''denied''"
    by (simp add: failedScan_trace)
  have own: "ownFolder (callbackWith passAll ''sub/'' [''sub''] 1) = ''sub''"
    by (simp add: ownFolder_def callbackWith_def beforeLast_def FILE_NAME_SEPARATOR_def)
  have retry: "tryReportingItemErrorFrom exampleExt alwaysContinue (Some e) cb name 0 s' \<noteq> None"
    for e cb name s'
    using retry_until_continue [where m = 0 and n = 0 and observer = alwaysContinue
            and ext = exampleExt and e = e and cb = cb and name = name and st = s']
    by (simp add: alwaysContinue_def)
  have some: "onFolder exampleExt alwaysContinue False 0 ?deep folderSub deepState \<noteq> None"
    using retry
    by (auto simp: onFolder_def Let_def tryReportingItemError_def callbackWith_def passAll_def
          split: option.splits prod.splits sum.splits)
  then obtain r st' where
    r: "onFolder exampleExt alwaysContinue False 0 ?deep folderSub deepState = Some (r, st')"
    by auto
  have facts: "parentRelPathPf ?deep @ folderName folderSub = ''deep/sub''"
    "failedFolderReads (dirValue deepState) = Map.empty"
    "failedItemReads (dirValue deepState) = Map.empty"
    by (simp_all add: callbackWith_def folderSub_def deepState_def freshState_def
          emptyDirectoryValue_def)
  from atFolder [OF r] have deep: "failedFolderReads (dirValue st') = Map.empty"
    "failedItemReads (dirValue st') ''other'' = None"
    by (simp_all add: facts)
  from r deep have deep': "failedFolderReads (dirValue (snd (the (onFolder exampleExt
        alwaysContinue False 0 ?deep folderSub deepState)))) = Map.empty"
    "failedItemReads (dirValue (snd (the (onFolder exampleExt alwaysContinue False 0
        ?deep folderSub deepState)))) ''other'' = None"
    by simp_all
  from failedScan_trace apart noError node own some deep' recorded_failedScan show ?thesis
    by (intro conjI) simp_all
qed

subsection \<open>The reporting worker\<close>

lemma hd_sorted_is_Min:
  assumes "sorted xs" and "xs \<noteq> []"
  shows "hd xs = Min (set xs)"
proof (cases xs)
  case Nil
  with assms(2) show ?thesis by simp
next
  case (Cons x rest)
  with assms(1) have "\<forall>y\<in>set xs. x \<le> y" by auto
  moreover have "x \<in> set xs" using Cons by simp
  ultimately have "Min (set xs) = x"
    by (intro Min_eqI) auto
  with Cons show ?thesis by simp
qed

lemma emplace_sorted: "sorted (map fst m) \<Longrightarrow> sorted (map fst (emplace k v m))"
  by (simp add: emplace_def sorted_insort_key)

lemma emplace_not_empty: "emplace k v m \<noteq> []"
  by (cases m) (auto simp: emplace_def)

lemma erase_sorted: "sorted (map fst m) \<Longrightarrow> sorted (map fst (erase k m))"
  by (simp add: erase_def sorted_filter)

lemma reportingInvariant_applyAction:
  "reportingInvariant (sAcb s) \<Longrightarrow> reportingInvariant (sAcb (applyAction act s))"
  by (cases act)
     (auto simp: reportingInvariant_def onAcb_def notifyWorkBegin_def notifyWorkEnd_def
        incItemsScanned_def reportCurrentFile_def Let_def emplace_sorted emplace_not_empty
        erase_sorted)

lemma reportingInvariant_reachable: "reachable s \<Longrightarrow> reportingInvariant (sAcb s)"
proof (induction rule: reachable.induct)
  case (created n interval buf)
  show ?case by (simp add: reportingInvariant_def newAsyncCallback_def)
next
  case (worker s act)
  from worker.IH show ?case by (rule reportingInvariant_applyAction)
next
  case (foreground s rv)
  from foreground.IH show ?case by (simp add: reportingInvariant_def onAcb_def)
qed

lemma reportingInvariant_lowest:
  assumes "reportingInvariant a"
  shows "notifyingThreadIdx a
           = (if activeThreadIdxs a = [] then 0 else Min (fst ` set (activeThreadIdxs a)))"
proof (cases "activeThreadIdxs a = []")
  case True
  with assms show ?thesis by (simp add: reportingInvariant_def)
next
  case False
  from assms have "sorted (map fst (activeThreadIdxs a))"
    by (simp add: reportingInvariant_def)
  with False have "hd (map fst (activeThreadIdxs a)) = Min (set (map fst (activeThreadIdxs a)))"
    by (intro hd_sorted_is_Min) auto
  with False assms show ?thesis
    by (simp add: reportingInvariant_def hd_map)
qed

lemma wrap64_id: "- (2 ^ 63) \<le> x \<Longrightarrow> x < 2 ^ 63 \<Longrightarrow> wrap64 x = x"
  by (simp add: wrap64_def)

lemma dist_abs: "\<bar>a - b\<bar> < 2 ^ 63 \<Longrightarrow> dist a b = \<bar>a - b\<bar>"
  by (auto simp: dist_def intro!: wrap64_id)

text \<open>
  C8, as stated, fails. With the interval 50 ms, the last report at one second and the
  clock reading 0 (the reading on error), no time has elapsed since the last report, and
  \<open>mayReportCurrentFile\<close> returns true: the code compares the distance of the two
  readings. With the interval 9223372036854775807 ms and no time elapsed it returns true
  as well: the interval's count of nanoseconds does not fit in 64 bits.
\<close>

theorem report_without_elapsed_interval_counterexample:
  "mayReportCurrentFile (newAsyncCallback 1 50) 0 0 1000000000 = (True, 0)
   \<and> \<not> (0 - 1000000000 > (50 :: int) * 1000000)
   \<and> mayReportCurrentFile (newAsyncCallback 1 9223372036854775807) 0 0 0 = (True, 0)
   \<and> \<not> (0 - 0 > (9223372036854775807 :: int) * 1000000)"
  by (simp add: mayReportCurrentFile_def newAsyncCallback_def dist_def wrap64_def)

text \<open>
  C8, amended. In every state that the coordinator reaches, and so after every
  \<open>notifyWorkBegin\<close> and \<open>notifyWorkEnd\<close>, \<open>notifyingThreadIdx\<close> is 0 when no worker is
  active and the least index of \<open>activeThreadIdxs\<close> otherwise. For an interval whose
  count of nanoseconds fits in 64 bits, and clock readings whose distance does,
  \<open>mayReportCurrentFile\<close> returns true exactly when the caller's index is
  \<open>notifyingThreadIdx\<close> and the distance between now and the last report, whichever of
  the two is the later, exceeds \<open>cbInterval\<close>; that distance is now minus the last report
  when the last report is not in the future. Whatever the interval and the readings, it
  returns true only for the index \<open>notifyingThreadIdx\<close>, sets \<open>lastReportTime\<close> to now
  when it returns true and leaves it otherwise. So two workers that may both report are
  the same worker.
\<close>

theorem reporting_worker_is_lowest_active:
  assumes "reachable s"
  shows "notifyingThreadIdx (sAcb s)
           = (if activeThreadIdxs (sAcb s) = [] then 0
              else Min (fst ` set (activeThreadIdxs (sAcb s))))
    \<and> notifyingThreadIdx (notifyWorkBegin i p (sAcb s))
           = Min (fst ` set (activeThreadIdxs (notifyWorkBegin i p (sAcb s))))
    \<and> activeThreadIdxs (notifyWorkBegin i p (sAcb s)) \<noteq> []
    \<and> notifyingThreadIdx (notifyWorkEnd i (sAcb s))
           = (if activeThreadIdxs (notifyWorkEnd i (sAcb s)) = [] then 0
              else Min (fst ` set (activeThreadIdxs (notifyWorkEnd i (sAcb s)))))
    \<and> (\<bar>cbInterval (sAcb s) * 1000000\<bar> < 2 ^ 63 \<and> \<bar>now - lastReport\<bar> < 2 ^ 63 \<longrightarrow>
         (fst (mayReportCurrentFile (sAcb s) idx now lastReport)
            \<longleftrightarrow> idx = notifyingThreadIdx (sAcb s)
                \<and> \<bar>now - lastReport\<bar> > cbInterval (sAcb s) * 1000000))
    \<and> (fst (mayReportCurrentFile (sAcb s) idx now lastReport)
          \<longrightarrow> idx = notifyingThreadIdx (sAcb s))
    \<and> snd (mayReportCurrentFile (sAcb s) idx now lastReport)
          = (if fst (mayReportCurrentFile (sAcb s) idx now lastReport) then now else lastReport)
    \<and> (lastReport \<le> now \<longrightarrow> \<bar>now - lastReport\<bar> = now - lastReport)
    \<and> (fst (mayReportCurrentFile (sAcb s) idx now lastReport)
         \<and> fst (mayReportCurrentFile (sAcb s) idx' now' lastReport') \<longrightarrow> idx = idx')"
proof -
  from assms have here: "reportingInvariant (sAcb s)"
    by (rule reportingInvariant_reachable)
  from assms have "reachable (applyAction (WorkBegin i p) s)"
    by (rule reachable.worker)
  then have begun: "reportingInvariant (notifyWorkBegin i p (sAcb s))"
    using reportingInvariant_reachable by (fastforce simp: onAcb_def)
  from assms have "reachable (applyAction (WorkEnd i) s)"
    by (rule reachable.worker)
  then have ended: "reportingInvariant (notifyWorkEnd i (sAcb s))"
    using reportingInvariant_reachable by (fastforce simp: onAcb_def)
  have nonempty: "activeThreadIdxs (notifyWorkBegin i p (sAcb s)) \<noteq> []"
    by (simp add: notifyWorkBegin_def Let_def emplace_not_empty)
  have may: "fst (mayReportCurrentFile a j t l)
               \<longleftrightarrow> j = notifyingThreadIdx a \<and> dist t l > wrap64 (cbInterval a * 1000000)"
    for a j t l
    by (simp add: mayReportCurrentFile_def)
  have inRange: "fst (mayReportCurrentFile a j t l)
               \<longleftrightarrow> j = notifyingThreadIdx a \<and> \<bar>t - l\<bar> > cbInterval a * 1000000"
    if "\<bar>cbInterval a * 1000000\<bar> < 2 ^ 63" and "\<bar>t - l\<bar> < 2 ^ 63" for a j t l
  proof -
    from that(1) have "wrap64 (cbInterval a * 1000000) = cbInterval a * 1000000"
      by (intro wrap64_id) simp_all
    with dist_abs [OF that(2)] may [of a j t l] show ?thesis by simp
  qed
  have upd: "snd (mayReportCurrentFile a j t l)
               = (if fst (mayReportCurrentFile a j t l) then t else l)" for a j t l
    by (simp add: mayReportCurrentFile_def)
  have c5: "\<bar>cbInterval (sAcb s) * 1000000\<bar> < 2 ^ 63 \<and> \<bar>now - lastReport\<bar> < 2 ^ 63 \<longrightarrow>
         (fst (mayReportCurrentFile (sAcb s) idx now lastReport)
            \<longleftrightarrow> idx = notifyingThreadIdx (sAcb s)
                \<and> \<bar>now - lastReport\<bar> > cbInterval (sAcb s) * 1000000)"
    using inRange [of "sAcb s" now lastReport idx] by blast
  have c6: "fst (mayReportCurrentFile (sAcb s) idx now lastReport)
          \<longrightarrow> idx = notifyingThreadIdx (sAcb s)"
    by (simp add: may)
  have c8: "lastReport \<le> now \<longrightarrow> \<bar>now - lastReport\<bar> = now - lastReport"
    by simp
  have c9: "fst (mayReportCurrentFile (sAcb s) idx now lastReport)
         \<and> fst (mayReportCurrentFile (sAcb s) idx' now' lastReport') \<longrightarrow> idx = idx'"
    by (simp add: may)
  show ?thesis
    apply (rule conjI [OF reportingInvariant_lowest [OF here]])
    apply (rule conjI)
     apply (simp add: reportingInvariant_lowest [OF begun] nonempty)
    apply (rule conjI [OF nonempty])
    apply (rule conjI [OF reportingInvariant_lowest [OF ended]])
    apply (rule conjI [OF c5])
    apply (rule conjI [OF c6])
    apply (rule conjI [OF upd])
    apply (rule conjI [OF c8])
    apply (rule c9)
    done
qed

theorem reporting_worker_is_lowest_active_witness:
  "activeThreadIdxs (sAcb exampleShared) = [(1, 2)]
   \<and> notifyingThreadIdx (sAcb exampleShared) = 1
   \<and> notifyingThreadIdx (notifyWorkBegin 0 1 (sAcb exampleShared)) = 0
   \<and> notifyingThreadIdx (notifyWorkEnd 1 (sAcb exampleShared)) = 0
   \<and> cbInterval (sAcb exampleShared) = 50
   \<and> \<bar>50 * 1000000\<bar> < (2 :: int) ^ 63 \<and> \<bar>100000000 - 0\<bar> < (2 :: int) ^ 63
   \<and> fst (mayReportCurrentFile (sAcb exampleShared) 1 100000000 0)
   \<and> \<not> fst (mayReportCurrentFile (sAcb exampleShared) 0 100000000 0)
   \<and> \<not> fst (mayReportCurrentFile (sAcb exampleShared) 1 50000000 0)
   \<and> (0 :: int) \<le> 100000000"
proof -
  have r: "reachable exampleShared"
    unfolding exampleShared_def by (intro reachable.worker reachable.created)
  have a: "activeThreadIdxs (sAcb exampleShared) = [(1, 2)]"
    by (simp add: exampleShared_def onAcb_def notifyWorkBegin_def notifyWorkEnd_def
          newAsyncCallback_def emplace_def erase_def)
  have c: "cbInterval (sAcb exampleShared) = 50"
    by (simp add: exampleShared_def onAcb_def notifyWorkBegin_def notifyWorkEnd_def
          newAsyncCallback_def Let_def)
  have b: "activeThreadIdxs (notifyWorkBegin 0 1 (sAcb exampleShared)) = [(0, 1), (1, 2)]"
    by (simp add: a notifyWorkBegin_def emplace_def)
  have e: "activeThreadIdxs (notifyWorkEnd 1 (sAcb exampleShared)) = []"
    by (simp add: a notifyWorkEnd_def erase_def)
  note t = reporting_worker_is_lowest_active [OF r, where i = 0 and p = 1 and idx = 1
             and now = 100000000 and lastReport = 0 and idx' = 1 and now' = 100000000
             and lastReport' = 0]
  note u = reporting_worker_is_lowest_active [OF r, where i = 1 and p = 1 and idx = 0
             and now = 100000000 and lastReport = 0 and idx' = 1 and now' = 100000000
             and lastReport' = 0]
  note v = reporting_worker_is_lowest_active [OF r, where i = 1 and p = 1 and idx = 1
             and now = 50000000 and lastReport = 0 and idx' = 1 and now' = 50000000
             and lastReport' = 0]
  from t u v a b c e show ?thesis
    by simp
qed

subsection \<open>The dispatcher\<close>

lemma keys_addToDevice:
  "(\<Union>g\<in>set (addToDevice lt rootPath key m). set (snd g))
     = insert key (\<Union>g\<in>set m. set (snd g))"
  by (induction lt rootPath key m rule: addToDevice.induct) (auto simp: insertKey_def)

lemma keys_foldl_addToDevice:
  "(\<Union>g\<in>set (foldl (\<lambda>m key. addToDevice lt (root key) key m) m0 keys). set (snd g))
     = (\<Union>g\<in>set m0. set (snd g)) \<union> set keys"
proof (induction keys arbitrary: m0)
  case Nil
  show ?case by simp
next
  case (Cons k ks)
  show ?case
    by (simp add: Cons.IH keys_addToDevice)
qed

lemma keys_groupByDevice:
  "(\<Union>g\<in>set (groupByDevice ext foldersToRead). set (snd g)) = set foldersToRead"
  using keys_foldl_addToDevice
          [where lt = "lessPath ext" and root = "\<lambda>key. getRootPath ext (folderPath key)"
             and ?m0.0 = "[]" and keys = foldersToRead]
  by (simp add: groupByDevice_def)

lemma groupByDevice_Nil: "groupByDevice ext [] = []"
  by (simp add: groupByDevice_def)

lemma addToDevice_not_empty: "addToDevice lt rootPath key m \<noteq> []"
  by (induction lt rootPath key m rule: addToDevice.induct) auto

lemma groupByDevice_not_empty: "foldersToRead \<noteq> [] \<Longrightarrow> groupByDevice ext foldersToRead \<noteq> []"
proof (induction foldersToRead rule: rev_induct)
  case Nil
  then show ?case by simp
next
  case (snoc k ks)
  show ?case by (simp add: groupByDevice_def addToDevice_not_empty)
qed

lemma spawnedAfterOwnInserts_snoc:
  "spawnedAfterOwnInserts (evs @ [x])
     = (spawnedAfterOwnInserts evs
        \<and> (case x of
              SpawnWorker w \<Rightarrow> (\<forall>k\<in>set (workload w). BufInsert k \<in> set evs)
            | _ \<Rightarrow> True))"
  by (auto simp: spawnedAfterOwnInserts_def nth_append less_Suc_eq all_conj_distrib
        split: DispatchEvent.splits)

lemma dispatchInvariant_bufEntry:
  "dispatchInvariant be \<Longrightarrow> dispatchInvariant (bufEntry be key)"
  by (auto simp: dispatchInvariant_def bufEntry_def spawnedAfterOwnInserts_snoc)

lemma dispatchInvariant_foldl:
  "dispatchInvariant be \<Longrightarrow> dispatchInvariant (foldl bufEntry be keys)"
  by (induction keys arbitrary: be) (simp_all add: dispatchInvariant_bufEntry)

lemma dom_bufEntry: "dom (fst (bufEntry be key)) = insert key (dom (fst be))"
  by (auto simp: bufEntry_def)

lemma dom_foldl_bufEntry: "dom (fst (foldl bufEntry be keys)) = dom (fst be) \<union> set keys"
  by (induction keys arbitrary: be) (simp_all add: dom_bufEntry)

lemma initWorkers_invariant:
  assumes "dispatchInvariant (buf, evs)"
      and "initWorkers legacy dpo per (buf, worker, evs) = (buf', worker', evs')"
  shows "dispatchInvariant (buf', evs')
       \<and> dom buf' = dom buf \<union> (\<Union>g\<in>set per. set (snd g))
       \<and> (per \<noteq> [] \<longrightarrow> (\<exists>w. last evs' = SpawnWorker w))
       \<and> (per = [] \<longrightarrow> evs' = evs \<and> worker' = worker)"
  using assms
proof (induction per arbitrary: buf worker evs)
  case Nil
  then show ?case by simp
next
  case (Cons g rest)
  obtain rootPath keys where g: "g = (rootPath, keys)" by (cases g)
  obtain b1 e1 where f: "foldl bufEntry (buf, evs) keys = (b1, e1)"
    by (cases "foldl bufEntry (buf, evs) keys")
  let ?w = "\<lparr>workerRoot = rootPath, workerIdx = int (length worker),
              workerParallelOps = (if legacy then 1
                 else max (case dpo rootPath of Some n \<Rightarrow> n | None \<Rightarrow> 1) 1),
              workload = keys\<rparr>"
  from dispatchInvariant_foldl [OF Cons.prems(1), of keys] f
  have i1: "dispatchInvariant (b1, e1)" by simp
  from dom_foldl_bufEntry [of "(buf, evs)" keys] f
  have d1: "dom b1 = dom buf \<union> set keys" by simp
  from i1 d1 have i2: "dispatchInvariant (b1, e1 @ [SpawnWorker ?w])"
    by (auto simp: dispatchInvariant_def spawnedAfterOwnInserts_snoc)
  from Cons.prems(2) g f
  have rec: "initWorkers legacy dpo rest (b1, worker @ [?w], e1 @ [SpawnWorker ?w])
               = (buf', worker', evs')"
    by (simp add: Let_def)
  from Cons.IH [OF i2 rec] d1 g show ?case
    by (cases rest) auto
qed

lemma applyAction_dom: "dom (sBuf (applyAction act s)) = dom (sBuf s)"
  by (cases act) (auto simp: onAcb_def dom_def)

lemma answerPendingError_dom:
  "answerPendingError callback s calls = (Some s1, calls1) \<Longrightarrow> sBuf s1 = sBuf s"
  by (auto simp: answerPendingError_def onAcb_def split: option.splits prod.splits if_splits)

lemma waitUntilDone_dom:
  "waitUntilDone ext callback sched s calls = Some (res, s', calls')
     \<Longrightarrow> dom (sBuf s') = dom (sBuf s)"
proof (induction ext callback sched s calls rule: waitUntilDone.induct)
  case (1 ext callback sched s calls)
  note step = "1.prems" [unfolded waitUntilDone.simps [of ext callback sched s calls]]
  show ?case
  proof (cases "wakeCondition (sAcb s)")
    case False
    show ?thesis
    proof (cases sched)
      case Nil
      with False step show ?thesis
        by simp
    next
      case (Cons act rest)
      show ?thesis
      proof (cases "isTimeout act")
        case True
        obtain ok calls1 where st: "reportStatusNow ext callback s calls = (ok, calls1)"
          by (cases "reportStatusNow ext callback s calls")
        show ?thesis
        proof (cases ok)
          case True
          with False Cons \<open>isTimeout act\<close> st step
          have "waitUntilDone ext callback rest s calls1 = Some (res, s', calls')"
            by simp
          with "1.IH"(1) [OF False Cons \<open>isTimeout act\<close> st [symmetric]] True
          show ?thesis by simp
        next
          case no: False
          with False Cons \<open>isTimeout act\<close> st step show ?thesis
            by simp
        qed
      next
        case notTimeout: False
        with False Cons step
        have "waitUntilDone ext callback rest (applyAction act s) calls = Some (res, s', calls')"
          by simp
        with "1.IH"(2) [OF False Cons notTimeout]
        show ?thesis by (simp add: applyAction_dom)
      qed
    qed
  next
    case True
    obtain r calls1 where ans: "answerPendingError callback s calls = (r, calls1)"
      by (cases "answerPendingError callback s calls")
    show ?thesis
    proof (cases r)
      case None
      with True ans step show ?thesis
        by simp
    next
      case (Some s1)
      with ans have same: "sBuf s1 = sBuf s"
        by (simp add: answerPendingError_dom)
      show ?thesis
      proof (cases "threadsToFinish (sAcb s1) = 0")
        case fin: True
        with True ans Some step same show ?thesis
          by (auto split: prod.splits bool.splits)
      next
        case unfinished: False
        with True ans Some step
        have "waitUntilDone ext callback sched s1 calls1 = Some (res, s', calls')"
          by simp
        moreover from True have "\<not> \<not> wakeCondition (sAcb s)" by simp
        ultimately show ?thesis
          using "1.IH"(3) [OF _ ans [symmetric] Some unfinished] same by simp
      qed
    qed
  qed
qed

lemma spawnedAfterOwnInserts_nth:
  "spawnedAfterOwnInserts evs \<Longrightarrow> i < length evs \<Longrightarrow> evs ! i = SpawnWorker w
     \<Longrightarrow> k \<in> set (workload w) \<Longrightarrow> BufInsert k \<in> set (take i evs)"
  by (fastforce simp: spawnedAfterOwnInserts_def split: DispatchEvent.splits)

lemma dispatchInvariant_start: "dispatchInvariant (Map.empty, [BufClear])"
  by (simp add: dispatchInvariant_def spawnedAfterOwnInserts_def)

lemma fillBuffer_parts:
  assumes "fillBuffer ext legacy sched foldersToRead buf dpo callback interval = Some r"
  shows "\<exists>buf1 s.
           initWorkers legacy dpo (groupByDevice ext foldersToRead) (Map.empty, [], [BufClear])
             = (buf1, workers r, dispatchEvents r)
         \<and> waitUntilDone ext callback sched
               \<lparr>sAcb = newAsyncCallback (of_nat (length (groupByDevice ext foldersToRead))) interval,
                sBuf = buf1\<rparr> []
             = Some (outcome r, s, observerCalls r)
         \<and> bufOut r = sBuf s"
  using assms
  by (auto simp: fillBuffer_def Let_def split: prod.splits option.splits)

lemma fillBuffer_dispatch:
  assumes "fillBuffer ext legacy sched foldersToRead buf dpo callback interval = Some r"
  shows "dispatchInvariant (bufOut r, dispatchEvents r)
       \<and> dom (bufOut r) = set foldersToRead
       \<and> (foldersToRead \<noteq> [] \<longrightarrow> (\<exists>w. last (dispatchEvents r) = SpawnWorker w))"
proof -
  from fillBuffer_parts [OF assms] obtain buf1 s where
    init: "initWorkers legacy dpo (groupByDevice ext foldersToRead) (Map.empty, [], [BufClear])
             = (buf1, workers r, dispatchEvents r)"
    and wait: "waitUntilDone ext callback sched
               \<lparr>sAcb = newAsyncCallback (of_nat (length (groupByDevice ext foldersToRead))) interval,
                sBuf = buf1\<rparr> []
             = Some (outcome r, s, observerCalls r)"
    and out: "bufOut r = sBuf s"
    by blast
  note inv = initWorkers_invariant [OF dispatchInvariant_start init]
  from waitUntilDone_dom [OF wait] out have same: "dom (bufOut r) = dom buf1"
    by simp
  from inv have "dispatchInvariant (buf1, dispatchEvents r)" by simp
  with same have a: "dispatchInvariant (bufOut r, dispatchEvents r)"
    by (simp add: dispatchInvariant_def)
  from inv same have b: "dom (bufOut r) = set foldersToRead"
    by (simp add: keys_groupByDevice)
  from inv have c: "foldersToRead \<noteq> [] \<longrightarrow> (\<exists>w. last (dispatchEvents r) = SpawnWorker w)"
    by (simp add: groupByDevice_not_empty)
  from a b c show ?thesis by simp
qed

text \<open>The run of \<open>fillBuffer\<close> on the two base folders /dev1/x and /dev2/y.\<close>

lemma keyX_neq_keyY: "keyX \<noteq> keyY" "keyY \<noteq> keyX"
  by (simp_all add: keyX_def keyY_def)

lemma groupByDevice_two_devices:
  "groupByDevice exampleExt [keyX, keyY] = [(''/dev1'', [keyX]), (''/dev2'', [keyY])]"
  by (simp add: groupByDevice_def exampleExt_def keyX_def keyY_def)

lemma initWorkers_two_devices:
  "initWorkers False Map.empty [(''/dev1'', [keyX]), (''/dev2'', [keyY])]
       (Map.empty, [], [BufClear])
     = ([keyX \<mapsto> emptyDirectoryValue, keyY \<mapsto> emptyDirectoryValue],
        [workerX, workerY],
        [BufClear, BufInsert keyX, SpawnWorker workerX, BufInsert keyY, SpawnWorker workerY])"
  by (simp add: bufEntry_def keyX_neq_keyY workerX_def workerY_def Let_def)

lemma waitUntilDone_two_workers:
  "waitUntilDone exampleExt quietObserver [WorkEnd 0, WorkEnd 1]
       \<lparr>sAcb = newAsyncCallback 2 50, sBuf = b\<rparr> []
     = Some (Inr (),
             \<lparr>sAcb = (newAsyncCallback 2 50)\<lparr>threadsToFinish := 0\<rparr>, sBuf = b\<rparr>,
             [StatusCall ''Scanning: '' 0])"
  by (simp add: newAsyncCallback_def waitUntilDone.simps wakeCondition_def
        onAcb_def notifyWorkEnd_def erase_def answerPendingError_def reportStatusNow_def
        getCurrentStatus_def quietObserver_def exampleExt_def)

lemma fillBuffer_two_devices:
  "fillBuffer exampleExt False [WorkEnd 0, WorkEnd 1] [keyX, keyY] buf Map.empty quietObserver 50
     = Some \<lparr>outcome = Inr (),
             bufOut = [keyX \<mapsto> emptyDirectoryValue, keyY \<mapsto> emptyDirectoryValue],
             observerCalls = [StatusCall ''Scanning: '' 0],
             dispatchEvents = [BufClear, BufInsert keyX, SpawnWorker workerX,
                               BufInsert keyY, SpawnWorker workerY],
             workers = [workerX, workerY]\<rparr>"
  by (simp add: fillBuffer_def Let_def groupByDevice_two_devices initWorkers_two_devices
        waitUntilDone_two_workers del: initWorkers.simps)

text \<open>
  C1. When \<open>fillBuffer\<close> returns (normally, or with what the observer threw), the keys of
  the output map are exactly the requested keys, whatever \<open>buf\<close> held before the call; as
  a map, \<open>buf\<close> holds one \<open>DirectoryValue\<close> per key.
\<close>

theorem fillBuffer_output_keys:
  assumes "fillBuffer ext legacy sched foldersToRead buf dpo callback interval = Some r"
  shows "dom (bufOut r) = set foldersToRead"
  using fillBuffer_dispatch [OF assms] by simp

theorem fillBuffer_output_keys_witness:
  "fillBuffer exampleExt False [WorkEnd 0, WorkEnd 1] [keyX, keyY]
       [keyY \<mapsto> emptyDirectoryValue\<lparr>folderCont := [(''old'', SymlinkRecord 1)]\<rparr>]
       Map.empty quietObserver 50 \<noteq> None
   \<and> outcome (the (fillBuffer exampleExt False [WorkEnd 0, WorkEnd 1] [keyX, keyY]
       [keyY \<mapsto> emptyDirectoryValue\<lparr>folderCont := [(''old'', SymlinkRecord 1)]\<rparr>]
       Map.empty quietObserver 50)) = Inr ()
   \<and> dom (bufOut (the (fillBuffer exampleExt False [WorkEnd 0, WorkEnd 1] [keyX, keyY]
       [keyY \<mapsto> emptyDirectoryValue\<lparr>folderCont := [(''old'', SymlinkRecord 1)]\<rparr>]
       Map.empty quietObserver 50))) = {keyX, keyY}"
proof -
  note e = fillBuffer_two_devices
             [of "[keyY \<mapsto> emptyDirectoryValue\<lparr>folderCont := [(''old'', SymlinkRecord 1)]\<rparr>]"]
  from fillBuffer_output_keys [OF e] e show ?thesis
    by simp
qed

text \<open>
  C5, as stated, fails: with no folder to read the observer receives one call of
  \<open>reportStatus\<close>, the last one that \<open>waitUntilDone\<close> always makes.
\<close>

theorem fillBuffer_empty_input_counterexample:
  "fillBuffer exampleExt False [] [] Map.empty Map.empty quietObserver 50
     = Some \<lparr>outcome = Inr (), bufOut = Map.empty,
             observerCalls = [StatusCall ''Scanning: '' 0],
             dispatchEvents = [BufClear], workers = []\<rparr>"
  by (simp add: fillBuffer_def groupByDevice_Nil newAsyncCallback_def waitUntilDone.simps
        wakeCondition_def answerPendingError_def reportStatusNow_def getCurrentStatus_def
        quietObserver_def exampleExt_def)

text \<open>
  C5, amended. When \<open>fillBuffer\<close> is called with no folder to read, it returns with \<open>buf\<close>
  empty after the observer has received exactly one call of \<open>reportStatus\<close>, with the
  text "Scanning: " (translated) and 0 items, and no call of \<open>reportError\<close>; it spawns no
  worker. If the observer throws in that call, \<open>fillBuffer\<close> ends with that failure.
\<close>

theorem fillBuffer_empty_input:
  "fillBuffer ext legacy sched [] buf dpo callback interval
     = Some \<lparr>outcome = (if cbReportStatus callback [] (translate ext ''Scanning:'' @ '' '') 0
                         then Inr () else Inl ObserverFailure),
             bufOut = Map.empty,
             observerCalls = [StatusCall (translate ext ''Scanning:'' @ '' '') 0],
             dispatchEvents = [BufClear], workers = []\<rparr>"
  by (simp add: fillBuffer_def groupByDevice_Nil newAsyncCallback_def waitUntilDone.simps
        wakeCondition_def answerPendingError_def reportStatusNow_def getCurrentStatus_def)

theorem fillBuffer_empty_input_witness:
  "fillBuffer exampleExt False [Timeout] [] [keyX \<mapsto> emptyDirectoryValue] Map.empty
       failingObserver 50
     = Some \<lparr>outcome = Inl ObserverFailure, bufOut = Map.empty,
             observerCalls = [StatusCall ''Scanning: '' 0],
             dispatchEvents = [BufClear], workers = []\<rparr>"
  using fillBuffer_empty_input
          [where ext = exampleExt and legacy = False and sched = "[Timeout]"
             and buf = "[keyX \<mapsto> emptyDirectoryValue]" and dpo = Map.empty
             and callback = failingObserver and interval = 50]
  by (simp add: failingObserver_def exampleExt_def)

lemma events_foldl_bufEntry:
  "distinct keys \<Longrightarrow> set keys \<inter> dom (fst be) = {}
     \<Longrightarrow> snd (foldl bufEntry be keys) = snd be @ map BufInsert keys"
proof (induction keys arbitrary: be)
  case Nil
  show ?case by simp
next
  case (Cons k ks)
  from Cons.prems have fresh: "fst be k = None" by auto
  then have step: "bufEntry be k = ((fst be)(k \<mapsto> emptyDirectoryValue), snd be @ [BufInsert k])"
    by (simp add: bufEntry_def)
  from Cons.prems have "distinct ks" "set ks \<inter> dom (fst (bufEntry be k)) = {}"
    by (auto simp: step)
  from Cons.IH [OF this] show ?case
    by (simp add: step)
qed

lemma initWorkers_events:
  "distinct (concat (map snd groups)) \<Longrightarrow> set (concat (map snd groups)) \<inter> dom buf = {}
     \<Longrightarrow> snd (snd (initWorkers legacy dpo groups (buf, worker, evs)))
           = evs @ perDeviceEvents legacy dpo (length worker) groups"
proof (induction groups arbitrary: buf worker evs)
  case Nil
  show ?case by simp
next
  case (Cons g rest)
  obtain rootPath keys where g: "g = (rootPath, keys)" by (cases g)
  obtain buf' evs' where f: "foldl bufEntry (buf, evs) keys = (buf', evs')"
    by (cases "foldl bufEntry (buf, evs) keys")
  from Cons.prems g have keys: "distinct keys" "set keys \<inter> dom (fst (buf, evs)) = {}"
    by auto
  from events_foldl_bufEntry [OF keys] f have evs': "evs' = evs @ map BufInsert keys"
    by simp
  from dom_foldl_bufEntry [of "(buf, evs)" keys] f have dom': "dom buf' = dom buf \<union> set keys"
    by simp
  from Cons.prems g have "distinct (concat (map snd rest))"
    "set (concat (map snd rest)) \<inter> dom buf' = {}"
    by (auto simp: dom')
  note ih = Cons.IH [OF this]
  show ?case
    by (simp add: g f Let_def ih evs')
qed

lemma distinct_addToDevice:
  "key \<notin> (\<Union>g\<in>set m. set (snd g)) \<Longrightarrow> distinct (concat (map snd m))
     \<Longrightarrow> distinct (concat (map snd (addToDevice lt rootPath key m)))"
proof (induction lt rootPath key m rule: addToDevice.induct)
  case (1 lt rootPath key)
  show ?case by simp
next
  case (2 lt rootPath key r ks rest)
  from "2.prems" have "key \<notin> (\<Union>g\<in>set rest. set (snd g))" "distinct (concat (map snd rest))"
    by auto
  note ih = "2.IH" [OF _ _ this]
  have keys: "(\<Union>g\<in>set (addToDevice lt rootPath key rest). set (snd g))
                = insert key (\<Union>g\<in>set rest. set (snd g))"
    by (rule keys_addToDevice)
  from "2.prems" ih keys show ?case
    by (auto simp: insertKey_def)
qed

lemma distinct_foldl_addToDevice:
  "distinct keys \<Longrightarrow> distinct (concat (map snd m0))
     \<Longrightarrow> set keys \<inter> (\<Union>g\<in>set m0. set (snd g)) = {}
     \<Longrightarrow> distinct (concat (map snd (foldl (\<lambda>m key. addToDevice lt (root key) key m) m0 keys)))"
proof (induction keys arbitrary: m0)
  case Nil
  then show ?case by simp
next
  case (Cons k ks)
  from Cons.prems have k: "k \<notin> (\<Union>g\<in>set m0. set (snd g))" by auto
  from distinct_addToDevice [OF k Cons.prems(2)]
  have d: "distinct (concat (map snd (addToDevice lt (root k) k m0)))" .
  from Cons.prems have "set ks \<inter> (\<Union>g\<in>set (addToDevice lt (root k) k m0). set (snd g)) = {}"
    by (auto simp: keys_addToDevice)
  with Cons.IH [OF _ d] Cons.prems(1) show ?case
    by simp
qed

lemma distinct_groupByDevice:
  "distinct foldersToRead \<Longrightarrow> distinct (concat (map snd (groupByDevice ext foldersToRead)))"
  using distinct_foldl_addToDevice
          [where lt = "lessPath ext" and root = "\<lambda>key. getRootPath ext (folderPath key)"
             and ?m0.0 = "[]" and keys = foldersToRead]
  by (simp add: groupByDevice_def)

lemma finishing_schedule:
  "errorRequest (sAcb s) = None \<Longrightarrow> unat (threadsToFinish (sAcb s)) = n
     \<Longrightarrow> waitUntilDone ext callback (replicate n (WorkEnd 0)) s calls \<noteq> None"
proof (induction n arbitrary: s)
  case 0
  then have z: "threadsToFinish (sAcb s) = 0" by (simp add: unat_eq_0)
  with "0.prems"(1) show ?case
    by (simp add: waitUntilDone.simps [of ext callback "[]" s calls] wakeCondition_def
          answerPendingError_def reportStatusNow_def split: prod.splits bool.splits)
next
  case (Suc n)
  then have nz: "threadsToFinish (sAcb s) \<noteq> 0" by auto
  let ?s = "applyAction (WorkEnd 0) s"
  have e: "errorRequest (sAcb ?s) = None"
    using Suc.prems(1) by (simp add: onAcb_def notifyWorkEnd_def Let_def)
  have "threadsToFinish (sAcb ?s) = threadsToFinish (sAcb s) - 1"
    by (simp add: onAcb_def notifyWorkEnd_def Let_def)
  with Suc.prems(2) nz have u: "unat (threadsToFinish (sAcb ?s)) = n"
    by (simp add: unat_minus_one)
  from Suc.IH [OF e u] nz Suc.prems(1) show ?case
    by (simp add: waitUntilDone.simps [of ext callback "WorkEnd 0 # replicate n (WorkEnd 0)" s calls]
          wakeCondition_def)
qed

text \<open>
  C9, as stated, fails: with base folders on two devices the entry of the second device
  is inserted into \<open>buf\<close> after the worker of the first device has been spawned.
\<close>

theorem insert_after_first_spawn_counterexample:
  "map_option dispatchEvents
     (fillBuffer exampleExt False [WorkEnd 0, WorkEnd 1] [keyX, keyY] Map.empty Map.empty
        quietObserver 50)
     = Some [BufClear, BufInsert keyX, SpawnWorker workerX, BufInsert keyY, SpawnWorker workerY]"
  by (simp add: fillBuffer_two_devices)

text \<open>
  C9, amended. In \<open>fillBuffer\<close>, \<open>buf\<close> is cleared once, at the start; then, for each
  device in turn, one \<open>DirectoryValue\<close> is inserted for every key of the device and the
  device's worker is spawned, so that the entries of a worker's own workload are inserted
  before that worker is spawned, and the entries of a later device after the workers of
  the earlier devices have been spawned. Every requested key is in the workload of
  exactly one device; exactly the requested keys are inserted; the last event of a call
  with folders to read is a spawn; no step of a worker and no step of the wait changes
  the key set of \<open>buf\<close>, so no entry is removed, and none is inserted after the last
  worker has been spawned. These are the events of every call that returns, and a call
  returns at least when every worker ends.
\<close>

theorem workers_spawned_after_own_inserts:
  assumes "distinct foldersToRead"
  shows "(let groups = groupByDevice ext foldersToRead;
              dispatched = initWorkers legacy dpo groups (Map.empty, [], [BufClear]);
              evs = snd (snd dispatched)
          in evs = BufClear # perDeviceEvents legacy dpo 0 groups
           \<and> distinct (concat (map snd groups))
           \<and> set (concat (map snd groups)) = set foldersToRead
           \<and> dom (fst dispatched) = set foldersToRead
           \<and> {k. BufInsert k \<in> set evs} = set foldersToRead
           \<and> (\<forall>i<length evs. \<forall>w. evs ! i = SpawnWorker w \<longrightarrow>
                 (\<forall>k\<in>set (workload w). BufInsert k \<in> set (take i evs)))
           \<and> (foldersToRead \<noteq> [] \<longrightarrow> (\<exists>w. last evs = SpawnWorker w))
           \<and> dom (sBuf (applyAction act s)) = dom (sBuf s)
           \<and> (\<forall>res s' calls'. waitUntilDone ext callback sched s calls = Some (res, s', calls')
                 \<longrightarrow> dom (sBuf s') = dom (sBuf s))
           \<and> (\<forall>r. fillBuffer ext legacy sched foldersToRead buf dpo callback interval = Some r
                 \<longrightarrow> dispatchEvents r = evs \<and> dom (bufOut r) = set foldersToRead)
           \<and> fillBuffer ext legacy
                (replicate (unat (of_nat (length groups) :: 64 word)) (WorkEnd 0))
                foldersToRead buf dpo callback interval \<noteq> None)"
proof -
  let ?groups = "groupByDevice ext foldersToRead"
  let ?d = "initWorkers legacy dpo ?groups (Map.empty, [], [BufClear])"
  let ?evs = "snd (snd ?d)"
  from assms have groups: "distinct (concat (map snd ?groups))"
    by (rule distinct_groupByDevice)
  have keys: "set (concat (map snd ?groups)) = set foldersToRead"
    using keys_groupByDevice [of ext foldersToRead] by simp
  have c1: "?evs = BufClear # perDeviceEvents legacy dpo 0 ?groups"
    using initWorkers_events [OF groups, where buf = Map.empty and worker = "[]"
            and evs = "[BufClear]" and legacy = legacy and dpo = dpo]
    by simp
  obtain buf1 ws evs1 where d: "?d = (buf1, ws, evs1)"
    by (cases ?d) auto
  then have parts: "fst ?d = buf1" "?evs = evs1"
    by simp_all
  note inv = initWorkers_invariant [OF dispatchInvariant_start d]
  from inv have c4: "dom (fst ?d) = set foldersToRead"
    unfolding parts by (simp add: keys_groupByDevice)
  from inv c4 have c5: "{k. BufInsert k \<in> set ?evs} = set foldersToRead"
    unfolding parts by (simp add: dispatchInvariant_def)
  from inv have "spawnedAfterOwnInserts ?evs"
    unfolding parts by (simp add: dispatchInvariant_def)
  then have c6: "\<forall>i<length ?evs. \<forall>w. ?evs ! i = SpawnWorker w \<longrightarrow>
                   (\<forall>k\<in>set (workload w). BufInsert k \<in> set (take i ?evs))"
    using spawnedAfterOwnInserts_nth by blast
  from inv have c7: "foldersToRead \<noteq> [] \<longrightarrow> (\<exists>w. last ?evs = SpawnWorker w)"
    unfolding parts by (simp add: groupByDevice_not_empty)
  have c8: "dom (sBuf (applyAction act s)) = dom (sBuf s)"
    by (rule applyAction_dom)
  have c9: "\<forall>res s' calls'. waitUntilDone ext callback sched s calls = Some (res, s', calls')
              \<longrightarrow> dom (sBuf s') = dom (sBuf s)"
    using waitUntilDone_dom by blast
  have c10: "\<forall>r. fillBuffer ext legacy sched foldersToRead buf dpo callback interval = Some r
               \<longrightarrow> dispatchEvents r = ?evs \<and> dom (bufOut r) = set foldersToRead"
  proof (intro allI impI)
    fix r
    assume r: "fillBuffer ext legacy sched foldersToRead buf dpo callback interval = Some r"
    from fillBuffer_parts [OF r] have "dispatchEvents r = ?evs" by auto
    with fillBuffer_dispatch [OF r]
    show "dispatchEvents r = ?evs \<and> dom (bufOut r) = set foldersToRead" by simp
  qed
  have c11: "fillBuffer ext legacy
               (replicate (unat (of_nat (length ?groups) :: 64 word)) (WorkEnd 0))
               foldersToRead buf dpo callback interval \<noteq> None"
  proof -
    let ?s = "\<lparr>sAcb = newAsyncCallback (of_nat (length ?groups)) interval, sBuf = buf1\<rparr>"
    have "errorRequest (sAcb ?s) = None"
      "unat (threadsToFinish (sAcb ?s)) = unat (of_nat (length ?groups) :: 64 word)"
      by (simp_all add: newAsyncCallback_def)
    from finishing_schedule [OF this, of ext callback "[]"] d show ?thesis
      by (auto simp: fillBuffer_def Let_def simp del: initWorkers.simps
            split: prod.splits option.splits)
  qed
  from c1 groups keys c4 c5 c6 c7 c8 c9 c10 c11 show ?thesis
    unfolding Let_def by (intro conjI)
qed

theorem workers_spawned_after_own_inserts_witness:
  "distinct [keyX, keyY]
   \<and> groupByDevice exampleExt [keyX, keyY] = [(''/dev1'', [keyX]), (''/dev2'', [keyY])]
   \<and> initWorkers False Map.empty (groupByDevice exampleExt [keyX, keyY])
         (Map.empty, [], [BufClear])
       = ([keyX \<mapsto> emptyDirectoryValue, keyY \<mapsto> emptyDirectoryValue],
          [workerX, workerY],
          [BufClear, BufInsert keyX, SpawnWorker workerX, BufInsert keyY, SpawnWorker workerY])
   \<and> perDeviceEvents False Map.empty 0 (groupByDevice exampleExt [keyX, keyY])
       = [BufInsert keyX, SpawnWorker workerX, BufInsert keyY, SpawnWorker workerY]
   \<and> (4 :: nat) < length [BufClear, BufInsert keyX, SpawnWorker workerX, BufInsert keyY,
                           SpawnWorker workerY]
   \<and> keyY \<in> set (workload workerY)
   \<and> BufInsert keyY \<in> set (take 4 [BufClear, BufInsert keyX, SpawnWorker workerX,
                                     BufInsert keyY, SpawnWorker workerY])
   \<and> [keyX, keyY] \<noteq> []
   \<and> fillBuffer exampleExt False [WorkEnd 0, WorkEnd 1] [keyX, keyY] Map.empty Map.empty
        quietObserver 50 \<noteq> None
   \<and> dispatchEvents (the (fillBuffer exampleExt False [WorkEnd 0, WorkEnd 1] [keyX, keyY]
        Map.empty Map.empty quietObserver 50))
       = [BufClear, BufInsert keyX, SpawnWorker workerX, BufInsert keyY, SpawnWorker workerY]
   \<and> dom (bufOut (the (fillBuffer exampleExt False [WorkEnd 0, WorkEnd 1] [keyX, keyY]
        Map.empty Map.empty quietObserver 50))) = {keyX, keyY}
   \<and> fillBuffer exampleExt False [WorkEnd 0, WorkEnd 0] [keyX, keyY] Map.empty Map.empty
        quietObserver 50 \<noteq> None"
proof -
  have dist: "distinct [keyX, keyY]"
    by (simp add: keyX_neq_keyY)
  note t = workers_spawned_after_own_inserts
             [OF dist, where ext = exampleExt and legacy = False and dpo = Map.empty
                and sched = "[WorkEnd 0, WorkEnd 1]" and buf = Map.empty
                and callback = quietObserver and interval = 50,
              unfolded Let_def groupByDevice_two_devices initWorkers_two_devices
                snd_conv fst_conv]
  note e = fillBuffer_two_devices [of Map.empty]
  note events = t [THEN conjunct1, symmetric]
  note rest5 = t [THEN conjunct2, THEN conjunct2, THEN conjunct2, THEN conjunct2,
                  THEN conjunct2]
  note ownInserts = rest5 [THEN conjunct1, rule_format, of 4 workerY keyY]
  note rest9 = rest5 [THEN conjunct2, THEN conjunct2, THEN conjunct2, THEN conjunct2]
  note returned = rest9 [THEN conjunct1, rule_format, OF e]
  note returning = rest9 [THEN conjunct2]
  from events
  have evs: "perDeviceEvents False Map.empty 0 [(''/dev1'', [keyX]), (''/dev2'', [keyY])]
               = [BufInsert keyX, SpawnWorker workerX, BufInsert keyY, SpawnWorker workerY]"
    by (simp del: perDeviceEvents.simps)
  from ownInserts
  have own: "BufInsert keyY \<in> set (take 4 [BufClear, BufInsert keyX, SpawnWorker workerX,
                                     BufInsert keyY, SpawnWorker workerY])"
    by (simp add: workerY_def)
  from returned e
  have ret: "dispatchEvents (the (fillBuffer exampleExt False [WorkEnd 0, WorkEnd 1]
        [keyX, keyY] Map.empty Map.empty quietObserver 50))
       = [BufClear, BufInsert keyX, SpawnWorker workerX, BufInsert keyY, SpawnWorker workerY]"
    "dom (bufOut (the (fillBuffer exampleExt False [WorkEnd 0, WorkEnd 1] [keyX, keyY]
        Map.empty Map.empty quietObserver 50))) = {keyX, keyY}"
    by simp_all
  have two: "unat (of_nat (length [(''/dev1'', [keyX]), (''/dev2'', [keyY])]) :: 64 word) = 2"
    by simp
  have twice: "replicate 2 (WorkEnd 0) = [WorkEnd 0, WorkEnd 0]"
    by (simp add: numeral_2_eq_2)
  note fin = returning [unfolded two twice]
  have wl: "keyY \<in> set (workload workerY)"
    by (simp add: workerY_def)
  have e': "fillBuffer exampleExt False [WorkEnd 0, WorkEnd 1] [keyX, keyY] Map.empty Map.empty
        quietObserver 50 \<noteq> None"
    by (simp add: e)
  show ?thesis
    unfolding groupByDevice_two_devices initWorkers_two_devices evs
    apply (rule conjI [OF dist])
    apply (rule conjI [OF refl])
    apply (rule conjI [OF refl])
    apply (rule conjI [OF refl])
    apply (rule conjI, simp)
    apply (rule conjI [OF wl])
    apply (rule conjI [OF own])
    apply (rule conjI, simp)
    apply (rule conjI [OF e'])
    apply (rule conjI [OF ret(1)])
    apply (rule conjI [OF ret(2)])
    apply (rule fin)
    done
qed

end
